theory Spec2Isabelle
  imports Main "HOL-Library.Product_Lexorder" "HOL-Library.Char_ord" "HOL-Library.List_Lexorder"
    "HOL-Library.AList"
begin

section \<open>Promises\<close>

text \<open>
  The citizen keeps promises as strings \<open>g/r\<close> and handles them only through the
  \<open>monotonic\<close> package (an external dependency). A promise is modelled as the pair
  of its two parts, \<open>'0/0'\<close> being \<open>(0, 0)\<close>; string equality of canonical promise
  strings is equality of pairs, and the order on pairs is the lexicographic one.
\<close>

type_synonym promise = "nat \<times> nat"

definition Monotonic_compare :: "promise \<Rightarrow> promise \<Rightarrow> int" where
  "Monotonic_compare a b = (if a < b then - 1 else if a = b then 0 else 1)"

definition Monotonic_increment :: "promise \<Rightarrow> nat \<Rightarrow> promise" where
  "Monotonic_increment p i = (if i = 0 then (fst p + 1, 0) else (fst p, snd p + 1))"

definition Monotonic_isBoundary :: "promise \<Rightarrow> nat \<Rightarrow> bool" where
  "Monotonic_isBoundary p i = (if i = 0 then snd p = 0 else True)"

section \<open>Data model\<close>

datatype error = AssertionError string | TypeError string | ReferenceError string | SyntaxError | Departure

type_synonym props = string
type_synonym payload = string

text \<open>A key of the tables indexed by a peer's immigration promise; the promise of an
  unknown peer is \<open>undefined\<close>, which JavaScript turns into a key of its own.\<close>

type_synonym pkey = "promise option"

record immigration =
  im_id :: string
  im_properties :: "props option"
  im_cookie :: nat

record exiled =
  ex_id :: string
  ex_promise :: "promise option"
  ex_properties :: "props option"

record government =
  promise :: promise
  majority :: "string list"
  minority :: "string list"
  constituents :: "string list"
  properties :: "(string \<times> props) list"
  immigrated_promise :: "(string \<times> promise) list"
  immigrated_id :: "(promise \<times> string) list"
  gmap :: "(promise \<times> promise) list option"
  immigrate :: "immigration option"
  exile :: "exiled option"

datatype body = Government government | Message payload

text \<open>A commit as it travels in a sync segment and as it is pushed onto the log. The
  log's \<open>method\<close> tag (\<open>government\<close> or \<open>entry\<close>) is \<open>isBoundary\<close> of the promise.\<close>

record entry =
  e_promise :: promise
  e_body :: body
  e_previous :: "promise option"

record proposal =
  p_quorum :: "string list option"
  p_promise :: promise
  p_body :: body
  p_was :: "promise option"
  p_route :: "string list option"

text \<open>What the shaper hands to \<open>newGovernment\<close>: a quorum and a partial government.\<close>

record shape =
  sh_quorum :: "string list"
  sh_majority :: "string list"
  sh_minority :: "string list"
  sh_immigrate :: "immigration option"
  sh_exile :: "string option"

record minimum =
  propagated :: promise
  version :: promise
  reduced :: promise

text \<open>The constructor stores the citizen's own minimum object in \<open>_minimums\<close> under
  its id: \<open>Own\<close> is that shared object, \<open>Rec\<close> an object of its own.\<close>

datatype minimum_ref = Own | Rec minimum

datatype wmethod = WWrite | WCommit | WOther

record wmessage =
  wm_method :: wmethod
  wm_promise :: promise
  wm_body :: "body option"

datatype mmethod = Synchronize | Write | OtherMethod string

datatype mversion = GovernmentVersion promise | WriterVersion promise bool

record message =
  m_method :: mmethod
  m_version :: mversion
  m_to :: "string list option"
  m_collapsible :: bool
  m_constituent :: bool
  m_key :: "string option"
  m_messages :: "wmessage list"

record sync =
  s_republic :: nat
  s_promise :: "promise option"
  s_from :: string
  s_minimum :: minimum
  s_committed :: promise
  s_commits :: "entry list"

record envelope =
  en_to :: string
  en_from :: string
  en_message :: message
  en_sync :: sync

record outgoing =
  o_from :: string
  o_message :: message
  o_envelopes :: "envelope list"

text \<open>The scheduler (an external package) keeps one event per key; the time of an
  event is a JavaScript number, \<open>None\<close> standing for \<open>NaN\<close>.\<close>

datatype event = Ev_synchronize "string list" bool | Ev_collapse | Ev_propose | Ev_assembly

record writer =
  w_version :: "promise \<times> bool"
  w_collapsed :: bool
  proposals :: "proposal list"
  writing :: "proposal list"

text \<open>The writer slot holds a \<open>Writer\<close> or, after a collapse, a \<open>Proposer\<close>; the
  shaper slot holds a \<open>Shaper\<close> or the object literal a non-leader installs. The
  proposer, the recorder and the shaper are not among the sources: their states are
  values of the type parameter and their operations are taken as parameters.\<close>

datatype 'x strategy = Writer writer | Proposer 'x

datatype 'x shaper_slot = Shaper 'x | Relay

record 'x paxos =
  ident :: string
  cookie :: nat
  republic :: nat
  parliamentSize :: nat
  log :: "entry list"
  trailer :: nat
  scheduler :: "(string \<times> nat option \<times> event) list"
  government :: government
  promised :: "promise option"
  ping :: nat
  timeout :: nat
  constituency :: "string list"
  citizens :: "string list"
  committed :: "(pkey \<times> promise) list"
  minimum :: minimum
  minimums :: "(string \<times> minimum_ref) list"
  outbox :: "outgoing list"
  writer_slot :: "'x strategy"
  recorder :: 'x
  shaper :: "'x shaper_slot"
  seed :: nat
  disappeared :: "(pkey \<times> nat) list"
  unreachable :: "(pkey \<times> bool) list"
  paxos_majority :: "string list option"

datatype rmethod = Reject | Unreachable | Respond | OtherReply string

record reply =
  rp_method :: rmethod
  rp_promise :: "promise option"

record rsync =
  rs_committed :: "promise option"
  rs_commits :: "entry list"

record response =
  r_message :: reply
  r_sync :: rsync
  r_minimum :: "minimum option"
  r_unreachable :: "(pkey \<times> bool) list"

record request =
  rq_message :: message
  rq_sync :: sync

record answer =
  a_message :: reply
  a_sync :: sync
  a_minimum :: minimum
  a_unreachable :: "(pkey \<times> bool) list"

text \<open>The collaborators that are not among the sources.\<close>

record 'x ext =
  Constituency :: "government \<Rightarrow> string \<Rightarrow> string list"
  Shaper_new :: "nat \<Rightarrow> government \<Rightarrow> 'x"
  Shaper_immigrate :: "'x \<Rightarrow> immigration \<Rightarrow> 'x \<times> shape option"
  Shaper_immigrated :: "'x \<Rightarrow> string \<Rightarrow> 'x"
  Shaper_unreachable :: "'x \<Rightarrow> string option \<Rightarrow> 'x \<times> shape option"
  Shaper_naturalized :: "'x \<Rightarrow> string \<Rightarrow> 'x \<times> shape option"
  Shaper_immigrating :: "'x \<Rightarrow> immigration list"
  Shaper_decide :: "'x \<Rightarrow> 'x"
  Recorder_new :: "entry \<Rightarrow> 'x"
  Recorder_createRecorder :: "'x \<Rightarrow> promise \<Rightarrow> 'x"
  Recorder_request :: "'x paxos \<Rightarrow> nat \<Rightarrow> message \<Rightarrow> error + (reply \<times> 'x paxos)"
  Proposer_new :: "promise \<Rightarrow> 'x"
  Proposer_version :: "'x \<Rightarrow> promise \<times> bool"
  Proposer_proposals :: "'x \<Rightarrow> proposal list option"
  Proposer_unshift :: "'x \<Rightarrow> proposal \<Rightarrow> 'x"
  Proposer_nudge :: "'x paxos \<Rightarrow> error + 'x paxos"
  Proposer_response :: "'x paxos \<Rightarrow> nat \<Rightarrow> message \<Rightarrow> (string \<times> response) list \<Rightarrow> error + 'x paxos"

section \<open>The log window\<close>

text \<open>
  \<open>log\<close> holds every entry pushed, oldest first, and \<open>trailer\<close> counts the entries the
  trailer has shifted past: \<open>log.head.body\<close> is the last entry, \<open>log.trailer.peek()\<close>
  and \<open>log.trailer.node.next\<close> are the entry at index \<open>trailer\<close> (\<open>null\<close> when there is
  none), and the indexer finds an entry among those not yet shifted.
\<close>

definition head :: "'x paxos \<Rightarrow> entry" where
  "head st = last (log st)"

definition window :: "'x paxos \<Rightarrow> entry list" where
  "window st = drop (trailer st) (log st)"

definition findRound :: "'x paxos \<Rightarrow> promise \<Rightarrow> entry option" where
  "findRound st sought = find (\<lambda>e. e_promise e = sought) (window st)"

definition leader :: "government \<Rightarrow> string option" where
  "leader g = (case majority g of [] \<Rightarrow> None | l # _ \<Rightarrow> Some l)"

section \<open>Constructor\<close>

definition null_government :: government where
  "null_government = \<lparr> promise = (0, 0), majority = [], minority = [], constituents = [],
     properties = [], immigrated_promise = [], immigrated_id = [], gmap = None,
     immigrate = None, exile = None \<rparr>"

definition new_Writer :: "promise \<Rightarrow> writer" where
  "new_Writer p = \<lparr> w_version = (p, False), w_collapsed = False, proposals = [], writing = [] \<rparr>"

definition Paxos :: "'x ext \<Rightarrow> nat \<Rightarrow> nat \<Rightarrow> string \<Rightarrow> nat \<Rightarrow> nat \<Rightarrow> nat \<Rightarrow> 'x paxos" where
  "Paxos x now republic0 id0 parliamentSize0 ping0 timeout0 =
     (let e0 = \<lparr> e_promise = (0, 0), e_body = Government null_government, e_previous = None \<rparr>
      in \<lparr> ident = id0, cookie = now, republic = republic0, parliamentSize = parliamentSize0,
           log = [e0], trailer = 0, scheduler = [], government = null_government,
           promised = None, ping = ping0, timeout = timeout0, constituency = [], citizens = [],
           committed = [],
           minimum = \<lparr> propagated = (0, 0), version = (0, 0), reduced = (0, 0) \<rparr>,
           minimums = [(id0, Own)], outbox = [],
           writer_slot = Writer (new_Writer (1, 0)), recorder = Recorder_new x e0,
           shaper = Shaper (Shaper_new x parliamentSize0 null_government),
           seed = 1, disappeared = [], unreachable = [], paxos_majority = None \<rparr>)"

section \<open>Sending\<close>

text \<open>\<open>_sync\<close>: the sync segment for peer \<open>id0\<close>, whose last known commit is
  \<open>committed0\<close>; at most \<open>count - 1\<close> commits are attached.\<close>

definition sync_from :: "'x paxos \<Rightarrow> string \<Rightarrow> promise \<Rightarrow> error + entry list" where
  "sync_from st id0 c =
     (if c = (0, 0) then
        (case dropWhile (\<lambda>e. \<not> (Monotonic_isBoundary (e_promise e) 0 \<and>
                 (case e_body e of Government g \<Rightarrow>
                    (case immigrate g of Some im \<Rightarrow> im_id im = id0 | None \<Rightarrow> False)
                  | Message _ \<Rightarrow> False))) (window st) of
           [] \<Rightarrow> Inl (AssertionError ''immigration missing'')
         | es \<Rightarrow> Inr es)
      else if \<not> Monotonic_compare c (propagated (minimum st)) \<ge> 0 then
        Inl (AssertionError ''minimum breached'')
      else if \<not> Monotonic_compare c (e_promise (head st)) \<le> 0 then
        Inl (AssertionError ''maximum breached'')
      else (case dropWhile (\<lambda>e. e_promise e \<noteq> c) (window st) of
              [] \<Rightarrow> Inl (TypeError ''_findRound(...) is null'')
            | _ # es \<Rightarrow> Inr es))"

definition u_sync :: "'x paxos \<Rightarrow> string \<Rightarrow> promise option \<Rightarrow> nat \<Rightarrow> error + sync" where
  "u_sync st id0 committed0 count =
     (let s = \<lparr> s_republic = republic st,
                s_promise = map_of (immigrated_promise (government st)) (ident st),
                s_from = ident st, s_minimum = minimum st,
                s_committed = e_promise (head st), s_commits = [] \<rparr>
      in case committed0 of
           None \<Rightarrow> Inr s
         | Some c \<Rightarrow> (case sync_from st id0 c of
                        Inl e \<Rightarrow> Inl e
                      | Inr es \<Rightarrow> Inr (s\<lparr> s_commits := take (count - 1) es \<rparr>)))"

fun envelopes :: "'x paxos \<Rightarrow> message \<Rightarrow> string list \<Rightarrow> error + envelope list" where
  "envelopes st m [] = Inr []"
| "envelopes st m (t # ts) =
     (case u_sync st t (map_of (committed st) (map_of (immigrated_promise (government st)) t)) 24 of
        Inl e \<Rightarrow> Inl e
      | Inr s \<Rightarrow> (case envelopes st m ts of
                    Inl e \<Rightarrow> Inl e
                  | Inr es \<Rightarrow> Inr (\<lparr> en_to = t, en_from = ident st, en_message = m, en_sync = s \<rparr> # es)))"

definition u_send :: "'x paxos \<Rightarrow> message \<Rightarrow> error + 'x paxos" where
  "u_send st m =
     (case m_to m of
        None \<Rightarrow> Inl (TypeError ''message.to is undefined'')
      | Some ts \<Rightarrow>
          (case envelopes st m ts of
             Inl e \<Rightarrow> Inl e
           | Inr es \<Rightarrow>
               Inr (st\<lparr> scheduler := filter (\<lambda>(k, _). k \<notin> set ts) (scheduler st),
                        outbox := outbox st @ [\<lparr> o_from = ident st, o_message = m, o_envelopes = es \<rparr>] \<rparr>)))"

section \<open>Writer\<close>

text \<open>The writer reaches the citizen through \<open>this._paxos\<close>, so its operations take
  and return the citizen's state; \<open>w\<close> is the writer object they are called on.\<close>

definition collapsed :: "'x strategy \<Rightarrow> bool" where
  \<comment> \<open>Modelled from the spec: the proposer is not among the sources; while Paxos
      recovery is in progress the writer slot reports itself collapsed.\<close>
  "collapsed s = (case s of Writer w \<Rightarrow> w_collapsed w | Proposer _ \<Rightarrow> True)"

definition Writer_push :: "'x paxos \<Rightarrow> writer \<Rightarrow> proposal \<Rightarrow> error + 'x paxos" where
  "Writer_push st w proposal0 =
     (case promised st of
        None \<Rightarrow> Inl (TypeError ''Monotonic.increment(null)'')
      | Some p \<Rightarrow>
          Inr (st\<lparr> promised := Some (Monotonic_increment p 1),
                   writer_slot := Writer (w\<lparr> proposals := proposals w @
                     [\<lparr> p_quorum = paxos_majority st, p_promise = Monotonic_increment p 1,
                        p_body = p_body proposal0, p_was = None, p_route = None \<rparr>] \<rparr>) \<rparr>))"

definition Writer_unshift :: "writer \<Rightarrow> proposal \<Rightarrow> writer" where
  "Writer_unshift w proposal0 =
     w\<lparr> proposals := \<lparr> p_quorum = p_quorum proposal0, p_promise = p_promise proposal0,
                        p_body = p_body proposal0, p_was = None, p_route = None \<rparr> # proposals w \<rparr>"

definition writer_message :: "writer \<Rightarrow> string list option \<Rightarrow> wmessage list \<Rightarrow> message" where
  "writer_message w to msgs =
     \<lparr> m_method = Write, m_version = WriterVersion (fst (w_version w)) (snd (w_version w)),
       m_to = to, m_collapsible = False, m_constituent = False, m_key = None,
       m_messages = msgs \<rparr>"

definition Writer_nudge :: "'x paxos \<Rightarrow> writer \<Rightarrow> error + 'x paxos" where
  "Writer_nudge st w =
     (if length (writing w) = 0 \<and> length (proposals w) \<noteq> 0 then
        (let w1 = w\<lparr> writing := writing w @ [hd (proposals w)], proposals := tl (proposals w) \<rparr>
         in u_send (st\<lparr> writer_slot := Writer w1 \<rparr>)
              (writer_message w1 (p_quorum (hd (writing w1)))
                 [\<lparr> wm_method = WWrite, wm_promise = p_promise (hd (writing w1)),
                    wm_body = Some (p_body (hd (writing w1))) \<rparr>]))
      else Inr (st\<lparr> writer_slot := Writer w \<rparr>))"

text \<open>One turn of the loop of \<open>Writer.response\<close> over \<open>request.messages\<close>.\<close>

definition Writer_response_message :: "'x paxos \<Rightarrow> wmessage \<Rightarrow> error + 'x paxos" where
  "Writer_response_message st wm =
     (case writer_slot st of
        Proposer _ \<Rightarrow> Inr st
      | Writer w \<Rightarrow>
          (case wm_method wm of
             WWrite \<Rightarrow>
               (case writing w of
                  [] \<Rightarrow> Inl (TypeError ''this._writing[0] is undefined'')
                | p0 # _ \<Rightarrow>
                    (let commit0 = \<lparr> wm_method = WCommit, wm_promise = p_promise p0, wm_body = None \<rparr>
                     in if length (proposals w) \<noteq> 0 \<and>
                           \<not> Monotonic_isBoundary (p_promise p0) 0 \<and>
                           \<not> Monotonic_isBoundary (p_promise (hd (proposals w))) 0
                        then
                          (let w1 = w\<lparr> writing := writing w @ [hd (proposals w)],
                                       proposals := tl (proposals w) \<rparr>
                           in u_send (st\<lparr> writer_slot := Writer w1 \<rparr>)
                                (writer_message w1 (p_quorum p0)
                                   [commit0,
                                    \<lparr> wm_method = WWrite, wm_promise = p_promise (writing w1 ! 1),
                                      wm_body = Some (p_body (writing w1 ! 1)) \<rparr>]))
                        else u_send st (writer_message w (p_quorum p0) [commit0])))
           | WCommit \<Rightarrow> Writer_nudge st (w\<lparr> writing := tl (writing w) \<rparr>)
           | WOther \<Rightarrow> Inr st))"

fun Writer_response_loop :: "'x paxos \<Rightarrow> wmessage list \<Rightarrow> error + 'x paxos" where
  "Writer_response_loop st [] = Inr st"
| "Writer_response_loop st (wm # wms) =
     (case Writer_response_message st wm of
        Inl e \<Rightarrow> Inl e
      | Inr st1 \<Rightarrow> Writer_response_loop st1 wms)"

text \<open>\<open>Writer.response\<close> answers a rejection with \<open>this._paxos.collapse(now)\<close>; the
  citizen has a method \<open>_collapse\<close> and none named \<open>collapse\<close>, so the call raises.\<close>

definition Writer_response ::
    "'x paxos \<Rightarrow> nat \<Rightarrow> message \<Rightarrow> (string \<times> response) list \<Rightarrow> promise option \<Rightarrow> error + 'x paxos" where
  "Writer_response st now request0 responses promise0 =
     (case promise0 of
        Some _ \<Rightarrow> Inl (TypeError ''this._paxos.collapse is not a function'')
      | None \<Rightarrow> Writer_response_loop st (m_messages request0))"

section \<open>Government\<close>

fun remap :: "promise \<Rightarrow> string list \<Rightarrow> proposal list \<Rightarrow> (promise \<times> promise) list \<Rightarrow>
    proposal list \<times> promise \<times> (promise \<times> promise) list" where
  "remap r maj [] m = ([], r, m)"
| "remap r maj (p # ps) m =
     (let r1 = Monotonic_increment r 1;
          (ps1, rf, mf) = remap r1 maj ps (AList.update (p_promise p) r1 m)
      in (p\<lparr> p_was := Some (p_promise p), p_route := Some maj, p_promise := r1 \<rparr> # ps1, rf, mf))"

text \<open>\<open>constituents.splice(constituents.indexOf(exile), 1)\<close>: an index of \<open>-1\<close> removes
  the last element.\<close>

definition splice_out :: "string \<Rightarrow> string list \<Rightarrow> string list" where
  "splice_out c cs = (if c \<in> set cs then remove1 c cs else butlast cs)"

text \<open>The government that \<open>newGovernment\<close> completes from the shape, with the map of
  the remapped proposals; the copy of an immigrant without properties fails to parse.\<close>

definition completed :: "government \<Rightarrow> shape \<Rightarrow> (promise \<times> promise) list option \<Rightarrow> error + government" where
  "completed cur s map0 =
     (let promise0 = Monotonic_increment (promise cur) 0;
          constituents0 = filter (\<lambda>c. c \<notin> set (sh_majority s) \<and> c \<notin> set (sh_minority s))
                            (sort (map fst (properties cur)));
          g = \<lparr> promise = promise0, majority = sh_majority s, minority = sh_minority s,
                constituents = constituents0, properties = properties cur,
                immigrated_promise = immigrated_promise cur, immigrated_id = immigrated_id cur,
                gmap = map0, immigrate = sh_immigrate s, exile = None \<rparr>
      in case sh_immigrate s of
           Some im \<Rightarrow>
             (case im_properties im of
                None \<Rightarrow> Inl SyntaxError
              | Some ps \<Rightarrow>
                  Inr (g\<lparr> properties := AList.update (im_id im) ps (properties cur),
                          constituents := constituents0 @ [im_id im],
                          immigrated_promise := AList.update (im_id im) promise0 (immigrated_promise cur),
                          immigrated_id := AList.update promise0 (im_id im) (immigrated_id cur) \<rparr>))
         | None \<Rightarrow>
             (case sh_exile s of
                None \<Rightarrow> Inr g
              | Some x \<Rightarrow>
                  if x = [] then Inr g
                  else Inr (g\<lparr> exile := Some \<lparr> ex_id = x,
                                   ex_promise = map_of (immigrated_promise cur) x,
                                   ex_properties = map_of (properties cur) x \<rparr>,
                               immigrated_id :=
                                 (case map_of (immigrated_promise cur) x of
                                    None \<Rightarrow> immigrated_id cur
                                  | Some p \<Rightarrow> AList.delete p (immigrated_id cur)),
                               immigrated_promise := AList.delete x (immigrated_promise cur),
                               properties := AList.delete x (properties cur),
                               constituents := splice_out x constituents0 \<rparr>)))"

definition decide :: "'x ext \<Rightarrow> 'x shaper_slot \<Rightarrow> 'x shaper_slot" where
  "decide x s = (case s of Shaper sh \<Rightarrow> Shaper (Shaper_decide x sh) | Relay \<Rightarrow> Relay)"

text \<open>The proposals of a writer that is not collapsed are given promises in the new
  government: the result is the queue, the last promise issued and the map.\<close>

definition remapped ::
    "writer \<Rightarrow> promise \<Rightarrow> string list \<Rightarrow> proposal list \<times> promise \<times> (promise \<times> promise) list option" where
  "remapped w promise0 maj =
     (if \<not> w_collapsed w then
        (let (ps1, r1, m1) = remap promise0 maj (proposals w) [] in (ps1, r1, Some m1))
      else (proposals w, promise0, None))"

definition government_proposal :: "string list \<Rightarrow> promise \<Rightarrow> government \<Rightarrow> proposal" where
  "government_proposal quorum promise0 g =
     \<lparr> p_quorum = Some quorum, p_promise = promise0, p_body = Government g,
       p_was = None, p_route = None \<rparr>"

definition newGovernment :: "'x ext \<Rightarrow> 'x paxos \<Rightarrow> nat \<Rightarrow> string list \<Rightarrow> shape \<Rightarrow> error + 'x paxos" where
  "newGovernment x st now quorum s =
     (let st1 = st\<lparr> shaper := decide x (shaper st) \<rparr>;
          promise0 = Monotonic_increment (promise (government st1)) 0
      in case writer_slot st1 of
           Writer w \<Rightarrow>
             (let ps = fst (remapped w promise0 (sh_majority s));
                  remapped0 = fst (snd (remapped w promise0 (sh_majority s)));
                  map0 = snd (snd (remapped w promise0 (sh_majority s)))
              in case completed (government st1) s map0 of
                   Inl e \<Rightarrow> Inl e
                 | Inr g \<Rightarrow>
                     if \<not> (length ps = 0 \<or> \<not> Monotonic_isBoundary (p_promise (hd ps)) 0)
                     then Inl (AssertionError [])
                     else Writer_nudge (st1\<lparr> promised := Some remapped0 \<rparr>)
                            (Writer_unshift (w\<lparr> proposals := ps \<rparr>)
                               (government_proposal quorum promise0 g)))
         | Proposer p \<Rightarrow>
             (case completed (government st1) s None of
                Inl e \<Rightarrow> Inl e
              | Inr g \<Rightarrow>
                  (case Proposer_proposals x p of
                     None \<Rightarrow> Inl (TypeError ''this._writer.proposals is undefined'')
                   | Some ps \<Rightarrow>
                       if \<not> (length ps = 0 \<or> \<not> Monotonic_isBoundary (p_promise (hd ps)) 0)
                       then Inl (AssertionError [])
                       else Proposer_nudge x
                              (st1\<lparr> promised := Some promise0,
                                    writer_slot := Proposer (Proposer_unshift x p
                                      (government_proposal quorum promise0 g)) \<rparr>))))"

definition u_reshape :: "'x ext \<Rightarrow> 'x paxos \<Rightarrow> nat \<Rightarrow> shape option \<Rightarrow> error + 'x paxos" where
  "u_reshape x st now shape0 =
     (case shape0 of None \<Rightarrow> Inr st | Some s \<Rightarrow> newGovernment x st now (sh_quorum s) s)"

section \<open>Commit\<close>

fun reshape_unreachable :: "'x ext \<Rightarrow> 'x paxos \<Rightarrow> nat \<Rightarrow> pkey list \<Rightarrow> error + 'x paxos" where
  "reshape_unreachable x st now [] = Inr st"
| "reshape_unreachable x st now (k # ks) =
     (case shaper st of
        Relay \<Rightarrow> reshape_unreachable x st now ks
      | Shaper sh \<Rightarrow>
          (let (sh1, shape0) = Shaper_unreachable x sh
                 (case k of None \<Rightarrow> None | Some p \<Rightarrow> map_of (immigrated_id (government st)) p)
           in case u_reshape x (st\<lparr> shaper := Shaper sh1 \<rparr>) now shape0 of
                Inl e \<Rightarrow> Inl e
              | Inr st1 \<Rightarrow> reshape_unreachable x st1 now ks))"

fun reshape_naturalized :: "'x ext \<Rightarrow> 'x paxos \<Rightarrow> nat \<Rightarrow> string list \<Rightarrow> error + 'x paxos" where
  "reshape_naturalized x st now [] = Inr st"
| "reshape_naturalized x st now (c # cs) =
     (case shaper st of
        Relay \<Rightarrow> reshape_naturalized x st now cs
      | Shaper sh \<Rightarrow>
          (let (sh1, shape0) = Shaper_naturalized x sh c
           in case u_reshape x (st\<lparr> shaper := Shaper sh1 \<rparr>) now shape0 of
                Inl e \<Rightarrow> Inl e
              | Inr st1 \<Rightarrow> reshape_naturalized x st1 now cs))"

definition createWriter :: "'x strategy \<Rightarrow> promise \<Rightarrow> 'x strategy" where
  \<comment> \<open>Modelled from the spec: \<open>Proposer.createWriter\<close> is not among the sources; a
      government enactment replaces the proposer with a fresh writer bound to the new
      promise. \<open>Writer.createWriter\<close> returns the writer itself.\<close>
  "createWriter s p = (case s of Writer w \<Rightarrow> Writer w | Proposer _ \<Rightarrow> Writer (new_Writer p))"

text \<open>Replacing \<open>this._minimum\<close> by a new object leaves the old object, with its last
  values, wherever \<open>_minimums\<close> still refers to it.\<close>

definition replace_minimum :: "'x paxos \<Rightarrow> minimum \<Rightarrow> 'x paxos" where
  "replace_minimum st m =
     st\<lparr> minimums := map (\<lambda>(k, r). (k, case r of Own \<Rightarrow> Rec (minimum st) | Rec v \<Rightarrow> Rec v)) (minimums st),
         minimum := m \<rparr>"

definition leader_shaper :: "'x ext \<Rightarrow> 'x paxos \<Rightarrow> nat \<Rightarrow> error + 'x paxos" where
  "leader_shaper x st now =
     (let g = government st;
          sh0 = Shaper_new x (parliamentSize st) g;
          sh1 = fold (\<lambda>im sh. fst (Shaper_immigrate x sh im))
                  (case shaper st of Shaper old \<Rightarrow> Shaper_immigrating x old | Relay \<Rightarrow> []) sh0;
          sh2 = (case immigrate g of Some im \<Rightarrow> Shaper_immigrated x sh1 (im_id im) | None \<Rightarrow> sh1)
      in case reshape_unreachable x (st\<lparr> shaper := Shaper sh2 \<rparr>) now (map fst (unreachable st)) of
           Inl e \<Rightarrow> Inl e
         | Inr st1 \<Rightarrow> reshape_naturalized x st1 now (citizens st1))"

text \<open>The block of \<open>_commit\<close> that enacts a government entry: \<open>install\<close> is its
  part before the shaper is chosen, \<open>settle\<close> its part after.\<close>

definition install :: "'x ext \<Rightarrow> 'x paxos \<Rightarrow> entry \<Rightarrow> government \<Rightarrow> 'x paxos" where
  "install x st e g =
     (let gone = (if gmap g = None
                  then map (map_of (immigrated_promise g)) (majority g @ minority g)
                  else [])
      in st\<lparr> scheduler := [], government := g,
             unreachable := filter (\<lambda>(k, _). k \<notin> set gone) (unreachable st),
             constituency := Constituency x g (ident st),
             citizens := majority g @ minority g @ constituents g,
             writer_slot := createWriter (writer_slot st) (e_promise e),
             recorder := Recorder_createRecorder x (recorder st) (e_promise e) \<rparr>)"

definition settle :: "'x paxos \<Rightarrow> nat \<Rightarrow> 'x paxos" where
  "settle st now =
     (let st1 = (if ident st \<in> set (majority (government st))
                 then st\<lparr> scheduler := AList.update (ident st)
                            (Some (now + ping st), Ev_collapse) (scheduler st) \<rparr>
                 else st);
          st2 = replace_minimum st1
                  \<lparr> propagated = propagated (minimum st1),
                    version = promise (government st1),
                    reduced = reduced (minimum st1) \<rparr>
      in st2\<lparr> minimums := List.map_filter
                  (\<lambda>c. map_option (Pair c) (map_of (minimums st2) c))
                  (constituency st2),
              committed := List.map_filter
                  (\<lambda>c. map_option (Pair (map_of (immigrated_promise (government st2)) c))
                         (map_of (committed st2) (map_of (immigrated_promise (government st2)) c)))
                  (constituency st2) \<rparr>)"

definition enact :: "'x ext \<Rightarrow> 'x paxos \<Rightarrow> nat \<Rightarrow> entry \<Rightarrow> error + 'x paxos" where
  "enact x st now e =
     (if \<not> Monotonic_compare (promise (government st)) (e_promise e) < 0 then
        Inl (AssertionError ''governments out of order'')
      else case e_body e of
        Message _ \<Rightarrow> Inl (TypeError ''this.government.majority is undefined'')
      | Government g \<Rightarrow>
          (case (if Some (ident st) = leader g then leader_shaper x (install x st e g) now
                 else Inr ((install x st e g)\<lparr> shaper := Relay \<rparr>)) of
             Inl err \<Rightarrow> Inl err
           | Inr st2 \<Rightarrow> Inr (settle st2 now)))"

text \<open>The end of \<open>_commit\<close>: the entry is pushed onto the log and the constituents are
  scheduled for synchronization.\<close>

definition push :: "'x paxos \<Rightarrow> nat \<Rightarrow> entry \<Rightarrow> 'x paxos" where
  "push st now e =
     (let st1 = (if length (constituency st) = 0
                 then st\<lparr> minimum := (minimum st)\<lparr> reduced := e_promise e \<rparr> \<rparr>
                 else st);
          st2 = st1\<lparr> log := log st1 @ [e] \<rparr>
      in if Some (ident st2) \<noteq> leader (government st2) \<or> length (majority (government st2)) = 1
         then st2\<lparr> scheduler := fold (\<lambda>c. AList.update c (Some now, Ev_synchronize [c] False))
                                   (constituency st2) (scheduler st2) \<rparr>
         else st2)"

definition u_commit :: "'x ext \<Rightarrow> 'x paxos \<Rightarrow> nat \<Rightarrow> entry \<Rightarrow> promise option \<Rightarrow> error + 'x paxos" where
  "u_commit x st now e top0 =
     (case top0 of
        None \<Rightarrow> Inl (TypeError ''Monotonic.compare(promise, null)'')
      | Some t \<Rightarrow>
          if Monotonic_compare (e_promise e) t \<le> 0 then
            (if Monotonic_compare (propagated (minimum st)) (e_promise e) \<le> 0 then
               (case findRound st (e_promise e) of
                  None \<Rightarrow> Inl (TypeError ''_findRound(...) is null'')
                | Some e1 \<Rightarrow> if e_body e1 = e_body e then Inr st else Inl Departure)
             else Inr st)
          else if top0 \<noteq> e_previous e then Inl (AssertionError ''incorrect previous'')
          else if \<not> (Monotonic_isBoundary (e_promise e) 0 \<or> Monotonic_increment t 1 = e_promise e)
          then Inl (AssertionError [])
          else
            (case (if Monotonic_isBoundary (e_promise e) 0 then enact x st now e else Inr st) of
               Inl err \<Rightarrow> Inl err
             | Inr st1 \<Rightarrow>
                 if e_previous e = None then Inl (AssertionError ''null previous'')
                 else Inr (push st1 now e)))"

fun commits :: "'x ext \<Rightarrow> 'x paxos \<Rightarrow> nat \<Rightarrow> entry list \<Rightarrow> promise option \<Rightarrow> error + 'x paxos" where
  "commits x st now [] top0 = Inr st"
| "commits x st now (e # es) top0 =
     (case u_commit x st now e top0 of
        Inl err \<Rightarrow> Inl err
      | Inr st1 \<Rightarrow> commits x st1 now es (Some (e_promise (head st1))))"

text \<open>The immigration check of \<open>_synchronize\<close> on the first commit.\<close>

definition announces :: "'x paxos \<Rightarrow> entry \<Rightarrow> bool" where
  "announces st e =
     (\<not> (\<not> Monotonic_isBoundary (e_promise e) 0 \<or>
         (case e_body e of
            Message _ \<Rightarrow> True
          | Government g \<Rightarrow>
              (case immigrate g of
                 None \<Rightarrow> True
               | Some im \<Rightarrow> im_id im \<noteq> ident st \<or> im_cookie im \<noteq> cookie st))))"

definition u_synchronize :: "'x ext \<Rightarrow> 'x paxos \<Rightarrow> nat \<Rightarrow> entry list \<Rightarrow> error + (bool \<times> 'x paxos)" where
  "u_synchronize x st now entries =
     (if length entries \<noteq> 0 then
        (if e_promise (head st) = (0, 0) then
           (if \<not> announces st (hd entries) then Inr (False, st)
            else (case commits x st now entries (e_previous (hd entries)) of
                    Inl e \<Rightarrow> Inl e
                  | Inr st1 \<Rightarrow> Inr (True, st1)))
         else (case commits x st now entries (Some (e_promise (head st))) of
                 Inl e \<Rightarrow> Inl e
               | Inr st1 \<Rightarrow> Inr (True, st1)))
      else Inr (True, st))"

section \<open>Bootstrap\<close>

definition bootstrap_government :: "string \<Rightarrow> props \<Rightarrow> government" where
  "bootstrap_government id0 properties0 =
     \<lparr> promise = (1, 0), majority = [id0], minority = [], constituents = [],
       properties = [(id0, properties0)], immigrated_promise = [(id0, (1, 0))],
       immigrated_id = [((1, 0), id0)], gmap = Some [],
       immigrate = Some \<lparr> im_id = ''0'', im_properties = Some properties0, im_cookie = 0 \<rparr>,
       exile = None \<rparr>"

definition bootstrap :: "'x ext \<Rightarrow> 'x paxos \<Rightarrow> nat \<Rightarrow> props \<Rightarrow> error + 'x paxos" where
  "bootstrap x st now properties0 =
     (case shaper st of
        Relay \<Rightarrow> Inl (TypeError ''this._shaper.immigrate is not a function'')
      | Shaper sh \<Rightarrow>
          u_commit x
            (st\<lparr> promised := Some (1, 0),
                 shaper := Shaper (fst (Shaper_immigrate x sh
                            \<lparr> im_id = ident st, im_properties = None, im_cookie = 0 \<rparr>)) \<rparr>)
            now
            \<lparr> e_promise = (1, 0), e_body = Government (bootstrap_government (ident st) properties0),
              e_previous = Some (0, 0) \<rparr>
            (Some (0, 0)))"

section \<open>Enqueue\<close>

record enqueue_result =
  enqueued :: bool
  er_republic :: "nat option"
  er_leader :: "string option"
  er_promise :: "promise option"

definition u_enqueuable :: "'x paxos \<Rightarrow> nat \<Rightarrow> enqueue_result option" where
  "u_enqueuable st republic0 =
     (if collapsed (writer_slot st) \<or> republic st \<noteq> republic0 then
        Some \<lparr> enqueued = False, er_republic = Some (republic st), er_leader = None, er_promise = None \<rparr>
      else if leader (government st) \<noteq> Some (ident st) then
        Some \<lparr> enqueued = False, er_republic = Some (republic st),
               er_leader = leader (government st), er_promise = None \<rparr>
      else None)"

text \<open>\<open>enqueue\<close> increments \<open>_promised\<close> and hands the proposal to \<open>Writer.push\<close>, which
  increments \<open>_promised\<close> again and takes the quorum from the citizen's \<open>majority\<close>
  property. The writer slot of an enqueuable citizen is not collapsed, hence a writer.\<close>

definition enqueue :: "'x paxos \<Rightarrow> nat \<Rightarrow> nat \<Rightarrow> payload \<Rightarrow> error + (enqueue_result \<times> 'x paxos)" where
  "enqueue st now republic0 message0 =
     (case u_enqueuable st republic0 of
        Some r \<Rightarrow> Inr (r, st)
      | None \<Rightarrow>
          (case promised st of
             None \<Rightarrow> Inl (TypeError ''Monotonic.increment(null)'')
           | Some p \<Rightarrow>
               (let promise0 = Monotonic_increment p 1;
                    st1 = st\<lparr> promised := Some promise0 \<rparr>
                in case writer_slot st1 of
                     Proposer _ \<Rightarrow> Inl (TypeError ''collapsed'')
                   | Writer w \<Rightarrow>
                       (case Writer_push st1 w
                               \<lparr> p_quorum = Some (majority (government st1)), p_promise = promise0,
                                 p_body = Message message0, p_was = None, p_route = None \<rparr> of
                          Inl e \<Rightarrow> Inl e
                        | Inr st2 \<Rightarrow>
                            (case writer_slot st2 of
                               Proposer _ \<Rightarrow> Inl (TypeError ''collapsed'')
                             | Writer w2 \<Rightarrow>
                                 (case Writer_nudge st2 w2 of
                                    Inl e \<Rightarrow> Inl e
                                  | Inr st3 \<Rightarrow>
                                      Inr (\<lparr> enqueued = True, er_republic = None,
                                             er_leader = leader (government st3),
                                             er_promise = Some promise0 \<rparr>, st3)))))))"

section \<open>Collapse\<close>

text \<open>\<open>x % 0\<close> is \<open>NaN\<close>. The seed starts at 1 and stays below \<open>2147483647\<close>, so the
  product is below \<open>2^53\<close> and the arithmetic on JavaScript numbers is exact.\<close>

definition js_mod :: "nat \<Rightarrow> nat \<Rightarrow> nat option" where
  "js_mod a b = (if b = 0 then None else Some (a mod b))"

definition u_propose :: "'x paxos \<Rightarrow> nat \<Rightarrow> bool \<Rightarrow> 'x paxos" where
  "u_propose st now retry =
     (let (delay, st1) =
            (if retry \<and> Some (ident st) \<noteq> leader (government st)
             then (js_mod (seed st * 16807 mod 2147483647) (timeout st),
                   st\<lparr> seed := seed st * 16807 mod 2147483647 \<rparr>)
             else (Some 0, st))
      in st1\<lparr> scheduler := AList.update (ident st1) (map_option (\<lambda>d. now + d) delay, Ev_propose)
                               (scheduler st1) \<rparr>)"


definition u_collapse :: "'x ext \<Rightarrow> 'x paxos \<Rightarrow> nat \<Rightarrow> 'x paxos" where
  "u_collapse x st now =
     u_propose (st\<lparr> scheduler := [],
                    writer_slot := Proposer (Proposer_new x (promise (government st))) \<rparr>) now False"

section \<open>Requests\<close>

function shift_trailer :: "'x paxos \<Rightarrow> error + 'x paxos" where
  "shift_trailer st =
     (if trailer st < length (log st) then
        (if Monotonic_compare (e_promise (log st ! trailer st)) (propagated (minimum st)) < 0
         then shift_trailer (st\<lparr> trailer := trailer st + 1 \<rparr>)
         else Inr st)
      else Inl (TypeError ''this.log.trailer.peek() is null''))"
  by pat_completeness auto
termination
  by (relation "measure (\<lambda>st. length (log st) - trailer st)") auto

definition answer :: "'x paxos \<Rightarrow> request \<Rightarrow> reply \<Rightarrow> promise option \<Rightarrow> error + (answer \<times> 'x paxos)" where
  "answer st rq msg syncFrom =
     (case u_sync st (s_from (rq_sync rq)) syncFrom 24 of
        Inl e \<Rightarrow> Inl e
      | Inr s \<Rightarrow> Inr (\<lparr> a_message = msg, a_sync = s, a_minimum = minimum st,
                        a_unreachable = unreachable st \<rparr>, st))"

definition request :: "'x ext \<Rightarrow> 'x paxos \<Rightarrow> nat \<Rightarrow> request \<Rightarrow> error + (answer \<times> 'x paxos)" where
  "request x st now rq =
     (let committed0 = e_promise (head st);
          st1 = (if Monotonic_compare (propagated (minimum st)) (propagated (s_minimum (rq_sync rq))) < 0
                 then st\<lparr> minimum := (minimum st)\<lparr> propagated := propagated (s_minimum (rq_sync rq)) \<rparr> \<rparr>
                 else st)
      in if Monotonic_compare (s_committed (rq_sync rq)) committed0 < 0 then
           answer st1 rq \<lparr> rp_method = Reject, rp_promise = Some committed0 \<rparr>
             (Some (s_committed (rq_sync rq)))
         else
           (case u_synchronize x st1 now (s_commits (rq_sync rq)) of
              Inl e \<Rightarrow> Inl e
            | Inr (False, st2) \<Rightarrow> answer st2 rq \<lparr> rp_method = Unreachable, rp_promise = None \<rparr> None
            | Inr (True, st2) \<Rightarrow>
                (case (if e_promise (head st2) \<noteq> (0, 0) then shift_trailer st2 else Inr st2) of
                   Inl e \<Rightarrow> Inl e
                 | Inr st3 \<Rightarrow>
                     (let st4 = (if ident st3 \<in> set (tl (majority (government st3)))
                                 then st3\<lparr> scheduler := AList.update (ident st3)
                                            (Some (now + timeout st3), Ev_collapse) (scheduler st3) \<rparr>
                                 else st3)
                      in case (if m_method (rq_message rq) = Synchronize
                               then Inr (\<lparr> rp_method = Respond,
                                           rp_promise = Some (e_promise (head st2)) \<rparr>, st4)
                               else Recorder_request x st4 now (rq_message rq)) of
                           Inl e \<Rightarrow> Inl e
                         | Inr (msg, st5) \<Rightarrow> answer st5 rq msg None))))"

section \<open>Responses\<close>

definition unreachable_response :: response where
  "unreachable_response =
     \<lparr> r_message = \<lparr> rp_method = Unreachable, rp_promise = Some (0, 0) \<rparr>,
       r_sync = \<lparr> rs_committed = None, rs_commits = [] \<rparr>,
       r_minimum = None, r_unreachable = [] \<rparr>"

fun unreachable_loop :: "'x ext \<Rightarrow> 'x paxos \<Rightarrow> nat \<Rightarrow> (pkey \<times> bool) list \<Rightarrow> error + 'x paxos" where
  "unreachable_loop x st now [] = Inr st"
| "unreachable_loop x st now ((k, v) # kvs) =
     (if map_of (unreachable st) k = Some True then unreachable_loop x st now kvs
      else
        (let st1 = st\<lparr> unreachable := AList.update k v (unreachable st) \<rparr>
         in case shaper st1 of
              Relay \<Rightarrow> unreachable_loop x st1 now kvs
            | Shaper sh \<Rightarrow>
                (let (sh1, shape0) = Shaper_unreachable x sh
                       (case k of None \<Rightarrow> None | Some p \<Rightarrow> map_of (immigrated_id (government st1)) p)
                 in case u_reshape x (st1\<lparr> shaper := Shaper sh1 \<rparr>) now shape0 of
                      Inl e \<Rightarrow> Inl e
                    | Inr st2 \<Rightarrow> unreachable_loop x st2 now kvs)))"

definition lookup_minimum :: "'x paxos \<Rightarrow> string \<Rightarrow> minimum option" where
  "lookup_minimum st c =
     (case map_of (minimums st) c of
        None \<Rightarrow> None
      | Some Own \<Rightarrow> Some (minimum st)
      | Some (Rec m) \<Rightarrow> Some m)"

text \<open>The loop over the constituency that reduces the least committed promise,
  starting from the head promise.\<close>

fun reduce :: "'x paxos \<Rightarrow> string list \<Rightarrow> promise \<Rightarrow> promise" where
  "reduce st [] r = r"
| "reduce st (c # cs) r =
     (case lookup_minimum st c of
        None \<Rightarrow> (0, 0)
      | Some m \<Rightarrow>
          if version m \<noteq> promise (government st) \<or> reduced m = (0, 0) then (0, 0)
          else reduce st cs (if Monotonic_compare (reduced m) r < 0 then reduced m else r))"

text \<open>The response's minimum is taken up when the message is a constituent's and the
  peer has no record yet or one of another version or another reduced promise;
  \<open>report\<close> stores it.\<close>

definition recomputes :: "'x paxos \<Rightarrow> message \<Rightarrow> string \<Rightarrow> minimum \<Rightarrow> bool" where
  "recomputes st message0 to0 m =
     (m_constituent message0 \<and>
      (case lookup_minimum st to0 of
         None \<Rightarrow> True
       | Some old \<Rightarrow> version old \<noteq> version m \<or> reduced old \<noteq> reduced m))"

definition report :: "'x paxos \<Rightarrow> string \<Rightarrow> minimum \<Rightarrow> 'x paxos" where
  "report st to0 m =
     st\<lparr> minimums := AList.update to0
           (Rec \<lparr> propagated = propagated m, version = version m, reduced = reduced m \<rparr>)
           (minimums st) \<rparr>"

definition recompute :: "'x paxos \<Rightarrow> message \<Rightarrow> string \<Rightarrow> minimum option \<Rightarrow> 'x paxos" where
  "recompute st message0 to0 minimum0 =
     (case minimum0 of
        None \<Rightarrow> st
      | Some m \<Rightarrow>
          if recomputes st message0 to0 m then
            (let st1 = report st to0 m;
                 reduced0 = reduce st1 (constituency st1) (e_promise (head st1))
             in replace_minimum st1
                  \<lparr> propagated = (if Some (ident st1) = leader (government st1) then reduced0
                                  else propagated (minimum st1)),
                    version = promise (government st1),
                    reduced = reduced0 \<rparr>)
          else st)"

text \<open>One turn of the housekeeping loop of \<open>response\<close>, for the recipient \<open>to0\<close>:
  \<open>received\<close> is the response after a network error has been turned into an
  \<open>unreachable\<close> message, with the state and the responses as that leaves them.\<close>

definition received ::
    "'x ext \<Rightarrow> 'x paxos \<Rightarrow> (string \<times> response) list \<Rightarrow> nat \<Rightarrow> message \<Rightarrow> string \<Rightarrow>
     response \<times> 'x paxos \<times> (string \<times> response) list" where
  "received x st responses now message0 to0 =
     (let promise0 = map_of (immigrated_promise (government st)) to0
      in if (case map_of responses to0 of
               None \<Rightarrow> True
             | Some r \<Rightarrow> rp_method (r_message r) = Unreachable)
         then
           (let st1 = (if m_collapsible message0 then u_collapse x st now else st)
            in case map_of (disappeared st1) promise0 of
                 None \<Rightarrow> (unreachable_response,
                          st1\<lparr> disappeared := AList.update promise0 now (disappeared st1) \<rparr>,
                          AList.update to0 unreachable_response responses)
               | Some d \<Rightarrow>
                   if d + timeout st1 \<le> now
                   then (unreachable_response\<lparr> r_unreachable := [(promise0, True)] \<rparr>, st1,
                         AList.update to0 (unreachable_response\<lparr> r_unreachable := [(promise0, True)] \<rparr>)
                           responses)
                   else (unreachable_response, st1, AList.update to0 unreachable_response responses))
         else (the (map_of responses to0),
               st\<lparr> disappeared := AList.delete promise0 (disappeared st) \<rparr>, responses))"

definition recipient ::
    "'x ext \<Rightarrow> 'x paxos \<Rightarrow> (string \<times> response) list \<Rightarrow> nat \<Rightarrow> message \<Rightarrow> string \<Rightarrow>
     error + ('x paxos \<times> (string \<times> response) list)" where
  "recipient x st responses now message0 to0 =
     (let promise0 = map_of (immigrated_promise (government st)) to0;
          (response0, st2, responses1) = received x st responses now message0 to0;
          st3 = (case rs_committed (r_sync response0) of
                   Some c \<Rightarrow> st2\<lparr> committed := AList.update promise0 c (committed st2) \<rparr>
                 | None \<Rightarrow> st2)
      in case u_synchronize x st3 now (rs_commits (r_sync response0)) of
           Inl e \<Rightarrow> Inl e
         | Inr (_, st4) \<Rightarrow>
             (case unreachable_loop x st4 now (r_unreachable response0) of
                Inl e \<Rightarrow> Inl e
              | Inr st5 \<Rightarrow> Inr (recompute st5 message0 to0 (r_minimum response0), responses1)))"

fun recipients ::
    "'x ext \<Rightarrow> 'x paxos \<Rightarrow> (string \<times> response) list \<Rightarrow> nat \<Rightarrow> message \<Rightarrow> string list \<Rightarrow>
     error + ('x paxos \<times> (string \<times> response) list)" where
  "recipients x st responses now message0 [] = Inr (st, responses)"
| "recipients x st responses now message0 (t # ts) =
     (case recipient x st responses now message0 t of
        Inl e \<Rightarrow> Inl e
      | Inr (st1, responses1) \<Rightarrow> recipients x st1 responses1 now message0 ts)"

definition writer_version :: "'x ext \<Rightarrow> 'x strategy \<Rightarrow> promise \<times> bool" where
  "writer_version x s = (case s of Writer w \<Rightarrow> w_version w | Proposer p \<Rightarrow> Proposer_version x p)"

definition response ::
    "'x ext \<Rightarrow> 'x paxos \<Rightarrow> nat \<Rightarrow> message \<Rightarrow> (string \<times> response) list \<Rightarrow> error + 'x paxos" where
  "response x st now message0 responses =
     (case m_to message0 of
        None \<Rightarrow> Inl (TypeError ''message.to is undefined'')
      | Some tos \<Rightarrow>
          (case recipients x st responses now message0 tos of
             Inl e \<Rightarrow> Inl e
           | Inr (st1, responses1) \<Rightarrow>
               if m_method message0 = Synchronize then
                 (if m_version message0 \<noteq> GovernmentVersion (promise (government st1)) then Inr st1
                  else
                    (case (case tos of [] \<Rightarrow> None | t0 # _ \<Rightarrow> map_of responses1 t0) of
                       None \<Rightarrow> Inl (TypeError ''responses[message.to[0]] is undefined'')
                     | Some r0 \<Rightarrow>
                         (let delay = (if rs_committed (r_sync r0) = None \<or>
                                          rs_committed (r_sync r0) = Some (e_promise (head st1))
                                       then ping st1 else 0)
                          in if m_key message0 \<noteq> Some (ident st1) \<or> \<not> collapsed (writer_slot st1)
                             then Inr (st1\<lparr> scheduler := AList.update
                                         (case m_key message0 of Some k \<Rightarrow> k | None \<Rightarrow> ''undefined'')
                                         (Some (now + delay),
                                          Ev_synchronize tos (m_collapsible message0))
                                         (scheduler st1) \<rparr>)
                             else Inr st1)))
               else if (case m_version message0 of
                          WriterVersion p c \<Rightarrow> (p, c) = writer_version x (writer_slot st1)
                        | GovernmentVersion _ \<Rightarrow> False)
               then
                 (case writer_slot st1 of
                    Writer w \<Rightarrow> Writer_response st1 now message0 responses1 None
                  | Proposer p \<Rightarrow> Proposer_response x st1 now message0 responses1)
               else Inr st1))"

section \<open>Auxiliary notions\<close>

definition idle :: "unit ext" where
  "idle = \<lparr> Constituency = (\<lambda>g i. if leader g = Some i then tl (majority g) @ (if length (majority g) = 1 then constituents g else []) else []),
     Shaper_new = (\<lambda>_ _. ()), Shaper_immigrate = (\<lambda>_ _. ((), None)),
     Shaper_immigrated = (\<lambda>_ _. ()), Shaper_unreachable = (\<lambda>_ _. ((), None)),
     Shaper_naturalized = (\<lambda>_ _. ((), None)), Shaper_immigrating = (\<lambda>_. []),
     Shaper_decide = (\<lambda>_. ()), Recorder_new = (\<lambda>_. ()), Recorder_createRecorder = (\<lambda>_ _. ()),
     Recorder_request = (\<lambda>st _ _. Inr (\<lparr> rp_method = Respond, rp_promise = None \<rparr>, st)),
     Proposer_new = (\<lambda>_. ()), Proposer_version = (\<lambda>_. ((0,0), True)),
     Proposer_proposals = (\<lambda>_. Some []), Proposer_unshift = (\<lambda>_ _. ()),
     Proposer_nudge = Inr, Proposer_response = (\<lambda>st _ _ _. Inr st) \<rparr>"

definition framed :: "'x paxos \<Rightarrow> 'x paxos \<Rightarrow> bool" where
  "framed st st' \<longleftrightarrow>
     ident st' = ident st \<and> cookie st' = cookie st \<and> republic st' = republic st \<and>
     parliamentSize st' = parliamentSize st \<and> log st' = log st \<and> trailer st' = trailer st \<and>
     government st' = government st \<and> ping st' = ping st \<and> timeout st' = timeout st \<and>
     constituency st' = constituency st \<and> citizens st' = citizens st \<and>
     committed st' = committed st \<and> minimum st' = minimum st \<and> minimums st' = minimums st \<and>
     recorder st' = recorder st \<and> seed st' = seed st \<and> disappeared st' = disappeared st \<and>
     unreachable st' = unreachable st \<and> paxos_majority st' = paxos_majority st \<and>
     (\<exists>w. writer_slot st' = Writer w)"





definition newcomer :: "unit paxos" where
  "newcomer = Paxos idle 5 7 ''1'' 5 3 5000"


definition dictator :: "unit paxos" where
  "dictator =
     \<lparr> ident = ''0'', cookie = 0, republic = 7, parliamentSize = 5,
       log = [\<lparr> e_promise = (0, 0), e_body = Government null_government, e_previous = None \<rparr>,
              \<lparr> e_promise = (1, 0), e_body = Government (bootstrap_government ''0'' ''p''),
                e_previous = Some (0, 0) \<rparr>],
       trailer = 0, scheduler = [(''0'', Some 3, Ev_collapse)],
       government = bootstrap_government ''0'' ''p'',
       promised = Some (1, 0), ping = 3, timeout = 5000, constituency = [], citizens = [''0''],
       committed = [],
       minimum = \<lparr> propagated = (0, 0), version = (1, 0), reduced = (1, 0) \<rparr>,
       minimums = [], outbox = [],
       writer_slot = Writer (new_Writer (1, 0)), recorder = (), shaper = Shaper (),
       seed = 1, disappeared = [], unreachable = [], paxos_majority = None \<rparr>"

text \<open>The claim as stated: the commits are appended to the log, in order.\<close>

definition applied :: "'x ext \<Rightarrow> 'x paxos \<Rightarrow> nat \<Rightarrow> entry list \<Rightarrow> bool" where
  "applied x st now es =
     (case u_synchronize x st now es of
        Inr (ok, st') \<Rightarrow> ok \<and> log st' = log st @ es
      | Inl _ \<Rightarrow> False)"

fun chained :: "promise \<Rightarrow> entry list \<Rightarrow> bool" where
  "chained t [] = True"
| "chained t (e # es) = (e_previous e = Some t \<and> chained (e_promise e) es)"

definition previous_matches :: "'x paxos \<Rightarrow> entry list \<Rightarrow> bool" where
  "previous_matches st es =
     (e_promise (head st) \<noteq> (0, 0) \<and> chained (e_promise (head st)) es)"

definition immigration_matches :: "'x paxos \<Rightarrow> entry list \<Rightarrow> bool" where
  "immigration_matches st es =
     (e_promise (head st) = (0, 0) \<and> es \<noteq> [] \<and> announces st (hd es))"

text \<open>What \<open>_commit\<close> lets through: \<open>h\<close> is the head promise, \<open>t\<close> the promise the
  next commit is compared with; the result is the list of the commits appended, or
  \<open>None\<close> where an assertion fails.\<close>

fun accepted :: "promise \<Rightarrow> promise \<Rightarrow> entry list \<Rightarrow> entry list option" where
  "accepted h t [] = Some []"
| "accepted h t (e # es) =
     (if e_promise e \<le> t then accepted h h es
      else if e_previous e = Some t \<and>
              (Monotonic_isBoundary (e_promise e) 0 \<or> e_promise e = Monotonic_increment t 1)
      then map_option (Cons e) (accepted (e_promise e) (e_promise e) es)
      else None)"

fun minor_chain :: "promise \<Rightarrow> entry list \<Rightarrow> bool" where
  "minor_chain t [] = True"
| "minor_chain t (e # es) =
     (e_previous e = Some t \<and> e_promise e = Monotonic_increment t 1 \<and> minor_chain (e_promise e) es)"

definition first_top :: "'x paxos \<Rightarrow> entry list \<Rightarrow> promise option" where
  "first_top st es =
     (if e_promise (head st) = (0, 0) then e_previous (hd es) else Some (e_promise (head st)))"

definition stray :: entry where
  "stray = \<lparr> e_promise = (1, 5), e_body = Message ''m'', e_previous = Some (1, 0) \<rparr>"

definition first_message :: entry where
  "first_message = \<lparr> e_promise = (2, 1), e_body = Message ''m'', e_previous = Some (2, 0) \<rparr>"

definition second_government :: government where
  "second_government =
     \<lparr> promise = (2, 0), majority = [''0''], minority = [],
       constituents = [''1''], properties = [(''0'', ''p''), (''1'', ''q'')],
       immigrated_promise = [(''0'', (1, 0)), (''1'', (2, 0))],
       immigrated_id = [((1, 0), ''0''), ((2, 0), ''1'')], gmap = Some [],
       immigrate = Some \<lparr> im_id = ''1'', im_properties = Some ''q'', im_cookie = 5 \<rparr>,
       exile = None \<rparr>"

definition arrival :: entry where
  "arrival = \<lparr> e_promise = (2, 0), e_body = Government second_government,
               e_previous = Some (1, 0) \<rparr>"

definition next_message :: entry where
  "next_message = \<lparr> e_promise = (1, 1), e_body = Message ''n'', e_previous = Some (1, 0) \<rparr>"

definition invitation :: shape where
  "invitation = \<lparr> sh_quorum = [''0''], sh_majority = [''0''], sh_minority = [],
     sh_immigrate = Some \<lparr> im_id = ''1'', im_properties = Some ''q'', im_cookie = 5 \<rparr>,
     sh_exile = None \<rparr>"

definition write_second :: message where
  "write_second = writer_message (new_Writer (1, 0)) (Some [''0''])
     [\<lparr> wm_method = WWrite, wm_promise = (2, 0), wm_body = Some (Government second_government) \<rparr>]"

text \<open>The dictator once its shaper has asked for the immigration of citizen 1.\<close>

definition proposing :: "unit paxos" where
  "proposing = dictator
     \<lparr> promised := Some (2, 0),
       writer_slot := Writer ((new_Writer (1, 0))
         \<lparr> writing := [government_proposal [''0''] (2, 0) second_government] \<rparr>),
       scheduler := [],
       outbox := [\<lparr> o_from = ''0'', o_message = write_second,
                   o_envelopes = [\<lparr> en_to = ''0'', en_from = ''0'', en_message = write_second,
                     en_sync = \<lparr> s_republic = 7, s_promise = Some (1, 0), s_from = ''0'',
                       s_minimum = minimum dictator, s_committed = (1, 0), s_commits = [] \<rparr> \<rparr>] \<rparr>] \<rparr>"

text \<open>A government entry is accepted when \<open>_commit\<close> returns with the entry appended.\<close>

definition government_accepted ::
    "'x ext \<Rightarrow> 'x paxos \<Rightarrow> nat \<Rightarrow> entry \<Rightarrow> promise option \<Rightarrow> bool" where
  "government_accepted x st now e top0 =
     (case u_commit x st now e top0 of
        Inr st' \<Rightarrow> Monotonic_isBoundary (e_promise e) 0 \<and> log st' = log st @ [e]
      | Inl _ \<Rightarrow> False)"

definition leap :: entry where
  "leap = \<lparr> e_promise = (5, 0), e_body = Government (second_government\<lparr> promise := (5, 0) \<rparr>),
            e_previous = Some (0, 0) \<rparr>"

text \<open>The dictator once the government that admits citizen 1 is committed: citizen 1
  is its only constituent.\<close>

definition representing :: "unit paxos" where
  "representing = dictator
     \<lparr> log := log dictator @ [arrival],
       scheduler := [(''0'', Some 7, Ev_collapse), (''1'', Some 4, Ev_synchronize [''1''] False)],
       government := second_government, constituency := [''1''], citizens := [''0'', ''1''],
       minimum := \<lparr> propagated = (0, 0), version = (2, 0), reduced = (1, 0) \<rparr> \<rparr>"

definition reported :: "'x paxos \<Rightarrow> string \<Rightarrow> bool" where
  "reported st c =
     (case lookup_minimum st c of
        Some m \<Rightarrow> version m = promise (government st)
      | None \<Rightarrow> False)"

definition reported_reduced :: "'x paxos \<Rightarrow> string \<Rightarrow> promise" where
  "reported_reduced st c =
     (case lookup_minimum st c of Some m \<Rightarrow> reduced m | None \<Rightarrow> (0, 0))"

definition ping_constituent :: message where
  "ping_constituent =
     \<lparr> m_method = Synchronize, m_version = GovernmentVersion (2, 0), m_to = Some [''1''],
       m_collapsible = False, m_constituent = True, m_key = Some ''1'', m_messages = [] \<rparr>"

definition ahead :: minimum where
  "ahead = \<lparr> propagated = (0, 0), version = (2, 0), reduced = (2, 5) \<rparr>"

definition behind :: minimum where
  "behind = \<lparr> propagated = (0, 0), version = (2, 0), reduced = (1, 0) \<rparr>"

definition stale :: minimum where
  "stale = \<lparr> propagated = (0, 0), version = (1, 0), reduced = (1, 0) \<rparr>"

text \<open>A request of another republic that carries the government admitting citizen 1.\<close>

definition foreign_request :: request where
  "foreign_request =
     \<lparr> rq_message = ping_constituent,
       rq_sync = \<lparr> s_republic = 8, s_promise = Some (1, 0), s_from = ''0'',
                   s_minimum = \<lparr> propagated = (0, 0), version = (2, 0), reduced = (0, 0) \<rparr>,
                   s_committed = (2, 0), s_commits = [arrival] \<rparr> \<rparr>"

definition request_outcome :: "error + (answer \<times> 'x paxos) \<Rightarrow> (rmethod \<times> entry list) option" where
  "request_outcome r =
     (case r of
        Inr (a, st) \<Rightarrow> Some (rp_method (a_message a), log st)
      | Inl _ \<Rightarrow> None)"

definition collapsed_after :: "error + 'x paxos \<Rightarrow> bool option" where
  "collapsed_after r = (case r of Inr st \<Rightarrow> Some (collapsed (writer_slot st)) | Inl _ \<Rightarrow> None)"

definition sent_after :: "error + 'x paxos \<Rightarrow> wmethod list list" where
  "sent_after r =
     (case r of
        Inr st \<Rightarrow> map (\<lambda>out. map wm_method (m_messages (o_message out))) (outbox st)
      | Inl _ \<Rightarrow> [])"

definition enqueue_outcome ::
    "error + (enqueue_result \<times> 'x paxos) \<Rightarrow> (bool \<times> promise option \<times> promise list) option" where
  "enqueue_outcome r =
     (case r of
        Inr (res, st) \<Rightarrow>
          Some (enqueued res, er_promise res,
                (case writer_slot st of Writer w \<Rightarrow> map p_promise (proposals w) | Proposer _ \<Rightarrow> []))
      | Inl _ \<Rightarrow> None)"


text \<open>The requests that a step from \<open>st\<close> to \<open>st1\<close> has put on the outbox, and the
  methods of the messages of each of a list of requests.\<close>

definition requests :: "'x paxos \<Rightarrow> 'x paxos \<Rightarrow> message list" where
  "requests st st1 = map o_message (drop (length (outbox st)) (outbox st1))"


text \<open>What a citizen does with its writer: proposals are pushed, governments are put at
  the head of the queue, the writer is nudged, and a request of the writer's that has
  not been answered yet is answered, without a rejection, and is not answered again;
  \<open>pending\<close> holds the requests of the writer that are not answered yet. Whatever else
  happens to the citizen in between leaves the writer alone.\<close>

inductive writer_run :: "'x ext \<Rightarrow> 'x paxos \<Rightarrow> 'x paxos \<Rightarrow> message list \<Rightarrow> bool"
  for x :: "'x ext" and st0 :: "'x paxos" where
  start: "writer_run x st0 st0 []"
| push: "writer_run x st0 st pending \<Longrightarrow> writer_slot st = Writer w \<Longrightarrow>
         Writer_push st w p = Inr st1 \<Longrightarrow> writer_run x st0 st1 (pending @ requests st st1)"
| nudge: "writer_run x st0 st pending \<Longrightarrow> writer_slot st = Writer w \<Longrightarrow>
          Writer_nudge st w = Inr st1 \<Longrightarrow> writer_run x st0 st1 (pending @ requests st st1)"
| govern: "writer_run x st0 st pending \<Longrightarrow> writer_slot st = Writer w \<Longrightarrow>
           newGovernment x st now q s = Inr st1 \<Longrightarrow>
           writer_run x st0 st1 (pending @ requests st st1)"
| respond: "writer_run x st0 st pending \<Longrightarrow> writer_slot st = Writer w \<Longrightarrow> m \<in> set pending \<Longrightarrow>
            Writer_response st now m rs None = Inr st1 \<Longrightarrow>
            writer_run x st0 st1 (remove1 m pending @ requests st st1)"
| other: "writer_run x st0 st pending \<Longrightarrow> writer_slot st1 = writer_slot st \<Longrightarrow>
          writer_run x st0 st1 pending"





text \<open>What the absent collaborators are taken to leave alone: a nudged proposer only
  sends; a proposer's response and a recorder's request may commit entries, which
  neither moves the trailer nor lowers the propagated minimum.\<close>

definition kept :: "'x paxos \<Rightarrow> 'x paxos \<Rightarrow> bool" where
  "kept st st' \<longleftrightarrow>
     ident st' = ident st \<and> trailer st' = trailer st \<and> minimum st' = minimum st \<and>
     government st' = government st \<and> log st' = log st"

definition collaborators_keep :: "'x ext \<Rightarrow> bool" where
  "collaborators_keep x \<longleftrightarrow>
     (\<forall>st st'. Proposer_nudge x st = Inr st' \<longrightarrow> kept st st') \<and>
     (\<forall>st now m rs st'. Proposer_response x st now m rs = Inr st' \<longrightarrow>
        trailer st' = trailer st \<and> propagated (minimum st) \<le> propagated (minimum st')) \<and>
     (\<forall>st now m r st'. Recorder_request x st now m = Inr (r, st') \<longrightarrow>
        trailer st' = trailer st \<and> propagated (minimum st) \<le> propagated (minimum st') \<and>
        take (length (log st)) (log st') = log st)"

definition led_by_others :: "string \<Rightarrow> entry list \<Rightarrow> bool" where
  "led_by_others id0 es =
     (\<forall>e\<in>set es. case e_body e of Government g \<Rightarrow> leader g \<noteq> Some id0 | Message _ \<Rightarrow> True)"

text \<open>The citizen is not the leader of its government, nor of any government that the
  responses carry.\<close>

definition never_leader :: "'x paxos \<Rightarrow> (string \<times> response) list \<Rightarrow> bool" where
  "never_leader st rs \<longleftrightarrow>
     leader (government st) \<noteq> Some (ident st) \<and>
     (\<forall>t r. map_of rs t = Some r \<longrightarrow> led_by_others (ident st) (rs_commits (r_sync r)))"

definition propagated_after :: "error + 'x paxos \<Rightarrow> promise option" where
  "propagated_after r = (case r of Inr st \<Rightarrow> Some (propagated (minimum st)) | Inl _ \<Rightarrow> None)"

definition reply :: "minimum \<Rightarrow> response" where
  "reply m = \<lparr> r_message = \<lparr> rp_method = Respond, rp_promise = Some (2, 0) \<rparr>,
               r_sync = \<lparr> rs_committed = Some (2, 0), rs_commits = [] \<rparr>,
               r_minimum = Some m, r_unreachable = [] \<rparr>"

definition caught_up :: minimum where
  "caught_up = \<lparr> propagated = (0, 0), version = (2, 0), reduced = (2, 0) \<rparr>"

text \<open>The leader once its only constituent has reported the government \<open>2/0\<close>.\<close>

definition informed :: "unit paxos" where
  "informed = representing
     \<lparr> scheduler := [(''0'', Some 7, Ev_collapse), (''1'', Some 8, Ev_synchronize [''1''] False)],
       committed := [(Some (2, 0), (2, 0))],
       minimum := \<lparr> propagated = (2, 0), version = (2, 0), reduced = (2, 0) \<rparr>,
       minimums := [(''1'', Rec caught_up)] \<rparr>"


text \<open>A batch that \<open>_commit\<close> appends whole for the citizen \<open>i\<close> under a government of
  promise \<open>g\<close>, when the first commit is compared with the promise \<open>t\<close>: the previous
  of every commit is the promise before it, and the commit either carries the
  increment-minor of that promise or is a government entry with a greater promise than
  that promise and than the government's, whose government has another leader than
  \<open>i\<close>.\<close>

fun admitted :: "string \<Rightarrow> promise \<Rightarrow> promise \<Rightarrow> entry list \<Rightarrow> bool" where
  "admitted i g t [] = True"
| "admitted i g t (e # es) =
     (e_previous e = Some t \<and>
      (if Monotonic_isBoundary (e_promise e) 0
       then t < e_promise e \<and> g < e_promise e \<and>
            (case e_body e of
               Government g1 \<Rightarrow> leader g1 \<noteq> Some i \<and> admitted i (promise g1) (e_promise e) es
             | Message _ \<Rightarrow> False)
       else e_promise e = Monotonic_increment t 1 \<and> admitted i g (e_promise e) es))"

text \<open>The dictator once it has collapsed: its writer slot holds a proposer.\<close>

definition recovering :: "unit paxos" where
  "recovering = u_collapse idle dictator 4"






section \<open>Lemmas\<close>

lemma compare_less [simp]: "Monotonic_compare a b < 0 \<longleftrightarrow> a < b"
  by (simp add: Monotonic_compare_def)

lemma compare_le [simp]: "Monotonic_compare a b \<le> 0 \<longleftrightarrow> a \<le> b"
  by (auto simp: Monotonic_compare_def)

lemma compare_ge [simp]: "Monotonic_compare a b \<ge> 0 \<longleftrightarrow> b \<le> a"
  by (auto simp: Monotonic_compare_def)

lemma framed_trans: "framed a b \<Longrightarrow> framed b c \<Longrightarrow> framed a c"
  by (simp add: framed_def)

lemma u_send_fields:
  "u_send st m = Inr st' \<Longrightarrow>
     \<exists>sc es. st' = st\<lparr> scheduler := sc, outbox := outbox st @ [\<lparr>o_from = ident st, o_message = m, o_envelopes = es\<rparr>] \<rparr>"
  unfolding u_send_def by (simp split: option.splits sum.splits) blast

lemma u_send_framed:
  "u_send st m = Inr st' \<Longrightarrow> writer_slot st = Writer w \<Longrightarrow> framed st st'"
  by (drule u_send_fields) (auto simp: framed_def)

lemma Writer_nudge_framed:
  "Writer_nudge st w = Inr st' \<Longrightarrow> framed st st'"
  unfolding Writer_nudge_def Let_def
  by (simp split: if_splits, drule u_send_fields) (auto simp: framed_def)

lemma newGovernment_framed:
  "newGovernment x st now q s = Inr st' \<Longrightarrow> writer_slot st = Writer w \<Longrightarrow> framed st st'"
  unfolding newGovernment_def Let_def
  by (simp split: if_splits sum.splits, (drule Writer_nudge_framed, simp add: framed_def)+)

lemma u_reshape_framed:
  "u_reshape x st now sh = Inr st' \<Longrightarrow> writer_slot st = Writer w \<Longrightarrow> framed st st'"
  unfolding u_reshape_def
  by (cases sh) (auto simp: framed_def dest: newGovernment_framed)

lemma reshape_naturalized_framed:
  "reshape_naturalized x st now cs = Inr st' \<Longrightarrow> writer_slot st = Writer w \<Longrightarrow> framed st st'"
proof (induction cs arbitrary: st w)
  case Nil
  then show ?case by (simp add: framed_def)
next
  case (Cons c cs)
  show ?case
  proof (cases "shaper st")
    case Relay
    with Cons show ?thesis by simp
  next
    case (Shaper sh)
    obtain sh1 shape0 where sn: "Shaper_naturalized x sh c = (sh1, shape0)" by (cases "Shaper_naturalized x sh c")
    from Cons.prems Shaper sn obtain st1 where
      r: "u_reshape x (st\<lparr>shaper := Shaper sh1\<rparr>) now shape0 = Inr st1"
      and rest: "reshape_naturalized x st1 now cs = Inr st'"
      by (auto split: sum.splits)
    from r Cons.prems(2) have f1: "framed (st\<lparr>shaper := Shaper sh1\<rparr>) st1"
      by (auto dest: u_reshape_framed)
    then obtain w1 where "writer_slot st1 = Writer w1" by (auto simp: framed_def)
    with rest have "framed st1 st'" by (rule Cons.IH)
    with f1 show ?thesis by (simp add: framed_def)
  qed
qed

lemma reshape_unreachable_framed:
  "reshape_unreachable x st now ks = Inr st' \<Longrightarrow> writer_slot st = Writer w \<Longrightarrow> framed st st'"
proof (induction ks arbitrary: st w)
  case Nil
  then show ?case by (simp add: framed_def)
next
  case (Cons k ks)
  show ?case
  proof (cases "shaper st")
    case Relay
    with Cons show ?thesis by simp
  next
    case (Shaper sh)
    obtain sh1 shape0 where sn: "Shaper_unreachable x sh
                 (case k of None \<Rightarrow> None | Some p \<Rightarrow> map_of (immigrated_id (government st)) p) = (sh1, shape0)"
      by (cases "Shaper_unreachable x sh
                 (case k of None \<Rightarrow> None | Some p \<Rightarrow> map_of (immigrated_id (government st)) p)")
    from Cons.prems Shaper sn obtain st1 where
      r: "u_reshape x (st\<lparr>shaper := Shaper sh1\<rparr>) now shape0 = Inr st1"
      and rest: "reshape_unreachable x st1 now ks = Inr st'"
      by (auto split: sum.splits)
    from r Cons.prems(2) have f1: "framed (st\<lparr>shaper := Shaper sh1\<rparr>) st1"
      by (auto dest: u_reshape_framed)
    then obtain w1 where "writer_slot st1 = Writer w1" by (auto simp: framed_def)
    with rest have "framed st1 st'" by (rule Cons.IH)
    with f1 show ?thesis by (simp add: framed_def)
  qed
qed

lemma leader_shaper_framed:
  assumes "leader_shaper x st now = Inr st'" and "writer_slot st = Writer w"
  shows "framed st st'"
proof -
  from assms(1) obtain sh2 st1 where
    a: "reshape_unreachable x (st\<lparr> shaper := Shaper sh2 \<rparr>) now (map fst (unreachable st)) = Inr st1"
    and b: "reshape_naturalized x st1 now (citizens st1) = Inr st'"
    unfolding leader_shaper_def Let_def by (auto split: sum.splits)
  from a assms(2) have f1: "framed (st\<lparr> shaper := Shaper sh2 \<rparr>) st1"
    by (auto dest: reshape_unreachable_framed)
  then obtain w1 where "writer_slot st1 = Writer w1" by (auto simp: framed_def)
  with b have "framed st1 st'" by (auto dest: reshape_naturalized_framed)
  with f1 show ?thesis by (simp add: framed_def)
qed

lemma createWriter_Writer: "\<exists>w. createWriter s p = Writer w"
  by (cases s) (simp_all add: createWriter_def)

lemma install_fields:
  "log (install x st e g) = log st \<and> trailer (install x st e g) = trailer st \<and>
   ident (install x st e g) = ident st \<and> cookie (install x st e g) = cookie st \<and>
   republic (install x st e g) = republic st \<and> timeout (install x st e g) = timeout st \<and>
   ping (install x st e g) = ping st \<and> parliamentSize (install x st e g) = parliamentSize st \<and>
   seed (install x st e g) = seed st \<and> minimum (install x st e g) = minimum st \<and>
   government (install x st e g) = g \<and> paxos_majority (install x st e g) = paxos_majority st \<and>
   constituency (install x st e g) = Constituency x g (ident st) \<and>
   (\<exists>w. writer_slot (install x st e g) = Writer w)"
  using createWriter_Writer[of "writer_slot st" "e_promise e"]
  by (auto simp: install_def Let_def)

lemma settle_fields:
  "log (settle st now) = log st \<and> trailer (settle st now) = trailer st \<and>
   ident (settle st now) = ident st \<and> cookie (settle st now) = cookie st \<and>
   republic (settle st now) = republic st \<and> timeout (settle st now) = timeout st \<and>
   ping (settle st now) = ping st \<and> parliamentSize (settle st now) = parliamentSize st \<and>
   seed (settle st now) = seed st \<and> propagated (minimum (settle st now)) = propagated (minimum st) \<and>
   reduced (minimum (settle st now)) = reduced (minimum st) \<and>
   version (minimum (settle st now)) = promise (government st) \<and>
   government (settle st now) = government st \<and> paxos_majority (settle st now) = paxos_majority st \<and>
   constituency (settle st now) = constituency st \<and>
   writer_slot (settle st now) = writer_slot st"
  by (simp add: settle_def Let_def replace_minimum_def)

lemma enact_shaped:
  assumes "enact x st now e = Inr st'"
  obtains g st2 where "e_body e = Government g" "promise (government st) < e_promise e"
    "st' = settle st2 now" "framed (install x st e g) st2"
proof -
  from assms obtain g where g: "e_body e = Government g" and lt: "promise (government st) < e_promise e"
    by (auto simp: enact_def split: if_splits body.splits)
  from assms g lt obtain st2 where
    st2: "(if Some (ident st) = leader g then leader_shaper x (install x st e g) now
           else Inr ((install x st e g)\<lparr> shaper := Relay \<rparr>)) = Inr st2"
    and st': "st' = settle st2 now"
    by (auto simp: enact_def split: sum.splits)
  obtain w1 where w1: "writer_slot (install x st e g) = Writer w1"
    using install_fields[of x st e g] by blast
  have "framed (install x st e g) st2"
  proof (cases "Some (ident st) = leader g")
    case True
    with st2 have "leader_shaper x (install x st e g) now = Inr st2" by simp
    from leader_shaper_framed[OF this w1] show ?thesis .
  next
    case False
    with st2 w1 show ?thesis by (auto simp: framed_def)
  qed
  with g lt st' show ?thesis by (rule that)
qed

lemma enact_fields:
  assumes "enact x st now e = Inr st'"
  shows "log st' = log st \<and> trailer st' = trailer st \<and> ident st' = ident st \<and> cookie st' = cookie st \<and>
         republic st' = republic st \<and> timeout st' = timeout st \<and> seed st' = seed st \<and>
         ping st' = ping st \<and> parliamentSize st' = parliamentSize st \<and>
         paxos_majority st' = paxos_majority st \<and>
         propagated (minimum st') = propagated (minimum st) \<and>
         reduced (minimum st') = reduced (minimum st) \<and>
         e_body e = Government (government st') \<and> promise (government st) < e_promise e \<and>
         constituency st' = Constituency x (government st') (ident st) \<and>
         (\<exists>w. writer_slot st' = Writer w)"
proof -
  from assms obtain g st2 where g: "e_body e = Government g" and lt: "promise (government st) < e_promise e"
    and st': "st' = settle st2 now" and f: "framed (install x st e g) st2"
    by (rule enact_shaped)
  from f show ?thesis
    using install_fields[of x st e g] settle_fields[of st2 now]
    by (simp add: st' framed_def g lt)
qed

lemma push_fields:
  "log (push st now e) = log st @ [e] \<and> trailer (push st now e) = trailer st \<and>
   ident (push st now e) = ident st \<and> cookie (push st now e) = cookie st \<and>
   republic (push st now e) = republic st \<and> timeout (push st now e) = timeout st \<and>
   ping (push st now e) = ping st \<and> parliamentSize (push st now e) = parliamentSize st \<and>
   seed (push st now e) = seed st \<and> propagated (minimum (push st now e)) = propagated (minimum st) \<and>
   government (push st now e) = government st \<and> paxos_majority (push st now e) = paxos_majority st \<and>
   constituency (push st now e) = constituency st \<and>
   writer_slot (push st now e) = writer_slot st"
  by (simp add: push_def Let_def)










lemmas model_defs = bootstrap_def Paxos_def Let_def idle_def u_commit_def enact_def install_def
  settle_def push_def leader_shaper_def u_reshape_def bootstrap_government_def null_government_def
  Monotonic_isBoundary_def Monotonic_compare_def Monotonic_increment_def leader_def
  createWriter_def replace_minimum_def List.map_filter_def new_Writer_def head_def



lemma bootstrap_dictator:
  "bootstrap idle (Paxos idle 0 7 ''0'' 5 3 5000) 0 ''p'' = Inr dictator"
  by (simp add: model_defs dictator_def)

lemma u_commit_cases:
  assumes "u_commit x st now e (Some t) = Inr st'"
  shows "(e_promise e \<le> t \<and> st' = st) \<or>
         (t < e_promise e \<and> e_previous e = Some t \<and>
          (Monotonic_isBoundary (e_promise e) 0 \<or> e_promise e = Monotonic_increment t 1) \<and>
          log st' = log st @ [e] \<and> ident st' = ident st \<and> cookie st' = cookie st \<and>
          trailer st' = trailer st \<and> propagated (minimum st') = propagated (minimum st))"
proof (cases "e_promise e \<le> t")
  case True
  with assms show ?thesis
    by (auto simp: u_commit_def split: if_splits option.splits)
next
  case False
  with assms have p: "e_previous e = Some t"
    and b: "Monotonic_isBoundary (e_promise e) 0 \<or> e_promise e = Monotonic_increment t 1"
    by (auto simp: u_commit_def split: if_splits)
  from assms False p b obtain st1 where
    st1: "(if Monotonic_isBoundary (e_promise e) 0 then enact x st now e else Inr st) = Inr st1"
    and st': "st' = push st1 now e"
    by (auto simp: u_commit_def split: if_splits sum.splits)
  have "log st1 = log st \<and> ident st1 = ident st \<and> cookie st1 = cookie st \<and>
        trailer st1 = trailer st \<and> propagated (minimum st1) = propagated (minimum st)"
  proof (cases "Monotonic_isBoundary (e_promise e) 0")
    case True
    with st1 have "enact x st now e = Inr st1" by simp
    from enact_fields[OF this] show ?thesis by simp
  next
    case False
    with st1 show ?thesis by simp
  qed
  with False p b st' show ?thesis
    using push_fields[of st1 now e] by auto
qed

lemma commits_accepted:
  "commits x st now es (Some t) = Inr st' \<Longrightarrow>
     \<exists>ks. accepted (e_promise (head st)) t es = Some ks \<and> log st' = log st @ ks \<and>
          ident st' = ident st \<and> cookie st' = cookie st \<and> trailer st' = trailer st \<and>
          propagated (minimum st') = propagated (minimum st)"
proof (induction es arbitrary: st t)
  case Nil
  then show ?case by simp
next
  case (Cons e es)
  from Cons.prems obtain st1 where
    c: "u_commit x st now e (Some t) = Inr st1"
    and r: "commits x st1 now es (Some (e_promise (head st1))) = Inr st'"
    by (auto split: sum.splits)
  from Cons.IH[OF r] obtain ks where
    ks: "accepted (e_promise (head st1)) (e_promise (head st1)) es = Some ks"
    and l: "log st' = log st1 @ ks" "ident st' = ident st1" "cookie st' = cookie st1"
      "trailer st' = trailer st1" "propagated (minimum st') = propagated (minimum st1)"
    by blast
  from u_commit_cases[OF c] show ?case
  proof
    assume "e_promise e \<le> t \<and> st1 = st"
    with ks l show ?thesis by simp
  next
    assume a: "t < e_promise e \<and> e_previous e = Some t \<and>
          (Monotonic_isBoundary (e_promise e) 0 \<or> e_promise e = Monotonic_increment t 1) \<and>
          log st1 = log st @ [e] \<and> ident st1 = ident st \<and> cookie st1 = cookie st \<and>
          trailer st1 = trailer st \<and> propagated (minimum st1) = propagated (minimum st)"
    then have "e_promise (head st1) = e_promise e" by (simp add: head_def)
    with a ks l show ?thesis by (auto simp: not_le[symmetric])
  qed
qed

lemma commits_minor_chain:
  "minor_chain t es \<Longrightarrow> t = e_promise (head st) \<Longrightarrow>
     \<exists>st'. commits x st now es (Some t) = Inr st' \<and> log st' = log st @ es"
proof (induction es arbitrary: st t)
  case Nil
  then show ?case by simp
next
  case (Cons e es)
  from Cons.prems(1) have p: "e_previous e = Some t" and i: "e_promise e = Monotonic_increment t 1"
    and m: "minor_chain (e_promise e) es"
    by auto
  from i have nb: "\<not> Monotonic_isBoundary (e_promise e) 0" and gt: "\<not> e_promise e \<le> t"
    by (auto simp: Monotonic_isBoundary_def Monotonic_increment_def less_eq_prod_def)
  have c: "u_commit x st now e (Some t) = Inr (push st now e)"
    using p i nb gt by (simp add: u_commit_def)
  have h: "e_promise e = e_promise (head (push st now e))"
    using push_fields[of st now e] by (simp add: head_def)
  from Cons.IH[OF m h] obtain st' where
    "commits x (push st now e) now es (Some (e_promise e)) = Inr st'"
    "log st' = log (push st now e) @ es"
    by blast
  with c h show ?case
    using push_fields[of st now e] by simp
qed

lemma stray_eval:
  "u_synchronize idle dictator 4 [stray] = Inl (AssertionError [])"
  by (simp add: u_synchronize_def u_commit_def dictator_def stray_def head_def
      Monotonic_isBoundary_def Monotonic_increment_def Monotonic_compare_def less_eq_prod_def)

lemma arrival_eval:
  "\<exists>st'. u_synchronize idle newcomer 4 [arrival, first_message] = Inr (True, st') \<and>
     log st' = log newcomer @ [arrival, first_message]"
  by (simp add: u_synchronize_def announces_def arrival_def second_government_def first_message_def newcomer_def
      model_defs less_eq_prod_def)

lemma next_message_chain: "minor_chain (e_promise (head dictator)) [next_message]"
  by (simp add: dictator_def head_def next_message_def Monotonic_increment_def)

lemma newGovernment_proposing:
  "newGovernment idle dictator 4 [''0''] invitation = Inr proposing"
  by (simp add: newGovernment_def Let_def dictator_def invitation_def proposing_def
      decide_def idle_def new_Writer_def completed_def remapped_def Monotonic_increment_def
      bootstrap_government_def Writer_nudge_def Writer_unshift_def u_send_def u_sync_def
      writer_message_def write_second_def second_government_def government_proposal_def
      Monotonic_isBoundary_def head_def)

lemma completed_promise:
  "completed cur s m = Inr g \<Longrightarrow> promise g = (fst (promise cur) + 1, 0)"
  by (auto simp: completed_def Let_def Monotonic_increment_def split: option.splits if_splits)

lemma Writer_nudge_queue:
  assumes "Writer_nudge st w = Inr st'"
  shows "\<exists>w'. writer_slot st' = Writer w' \<and>
           (if writing w = [] \<and> proposals w \<noteq> []
            then writing w' = [hd (proposals w)] \<and> proposals w' = tl (proposals w)
            else w' = w)"
  using assms unfolding Writer_nudge_def Let_def
  by (auto split: if_splits dest!: u_send_fields)

lemma Writer_unshift_government:
  "Writer_unshift w (government_proposal q p g) =
     w\<lparr> proposals := government_proposal q p g # proposals w \<rparr>"
  by (simp add: Writer_unshift_def government_proposal_def)

lemma newGovernment_queue:
  assumes "newGovernment x st now q s = Inr st'" and "writer_slot st = Writer w"
  shows "\<exists>w' g. writer_slot st' = Writer w' \<and>
           promise g = (fst (promise (government st)) + 1, 0) \<and>
           (if writing w = [] then writing w' = [government_proposal q (promise g) g]
            else writing w' = writing w \<and> proposals w' \<noteq> [] \<and>
                 hd (proposals w') = government_proposal q (promise g) g)"
proof -
  define p0 where "p0 = Monotonic_increment (promise (government st)) 0"
  define ps where "ps = fst (remapped w p0 (sh_majority s))"
  define m where "m = snd (snd (remapped w p0 (sh_majority s)))"
  from assms obtain g st0 where
    g: "completed (government st) s m = Inr g"
    and n: "Writer_nudge st0 (Writer_unshift (w\<lparr> proposals := ps \<rparr>) (government_proposal q p0 g)) = Inr st'"
    unfolding newGovernment_def Let_def p0_def ps_def m_def
    by (auto split: if_splits sum.splits)
  have pg: "promise g = (fst (promise (government st)) + 1, 0)"
    using g by (rule completed_promise)
  then have p0: "p0 = promise g" by (simp add: p0_def Monotonic_increment_def)
  from Writer_nudge_queue[OF n[unfolded Writer_unshift_government]] obtain w' where
    w': "writer_slot st' = Writer w'"
      "if writing w = [] then writing w' = [government_proposal q p0 g]
       else w' = w\<lparr> proposals := government_proposal q p0 g # ps \<rparr>"
    by (auto split: if_splits)
  show ?thesis
  proof (cases "writing w = []")
    case True
    with w' pg p0 show ?thesis by auto
  next
    case False
    with w' pg p0 show ?thesis by auto
  qed
qed

lemma government_accepted_bounds:
  assumes "government_accepted x st now e (Some t)"
  shows "snd (e_promise e) = 0 \<and> e_previous e = Some t \<and> t < e_promise e \<and>
         promise (government st) < e_promise e"
proof -
  from assms obtain st' where c: "u_commit x st now e (Some t) = Inr st'"
    and b: "Monotonic_isBoundary (e_promise e) 0" and l: "log st' = log st @ [e]"
    by (auto simp: government_accepted_def split: sum.splits)
  from u_commit_cases[OF c] l have p: "t < e_promise e" "e_previous e = Some t"
    by auto
  with c b obtain st1 where "enact x st now e = Inr st1"
    by (auto simp: u_commit_def split: if_splits sum.splits)
  from enact_fields[OF this] p b show ?thesis
    by (simp add: Monotonic_isBoundary_def)
qed

lemma leap_accepted: "government_accepted idle newcomer 4 leap (Some (0, 0))"
  by (simp add: government_accepted_def leap_def newcomer_def model_defs less_eq_prod_def
      second_government_def)

declare shift_trailer.simps [simp del]

lemma dictator_admits:
  "u_synchronize idle dictator 4 [arrival] = Inr (True, representing)"
  by (simp add: u_synchronize_def representing_def dictator_def arrival_def second_government_def
      model_defs less_eq_prod_def)

lemma promise_least: "(0, 0) \<le> (p :: promise)"
  by (cases p) (simp add: less_eq_prod_def)

lemma Min_insert_min:
  "finite S \<Longrightarrow> Min (insert (min a r) S) = Min (insert r (insert a S))"
  by (cases "S = {}") (simp_all add: min.commute min.left_commute min.assoc)

lemma reduce_all:
  "\<forall>c\<in>set cs. reported st c \<Longrightarrow>
     reduce st cs r = Min (insert r (reported_reduced st ` set cs))"
proof (induction cs arbitrary: r)
  case Nil
  then show ?case by simp
next
  case (Cons c cs)
  from Cons.prems obtain m where m: "lookup_minimum st c = Some m"
    and v: "version m = promise (government st)"
    by (auto simp: reported_def split: option.splits)
  have rr: "reported_reduced st c = reduced m" by (simp add: reported_reduced_def m)
  show ?case
  proof (cases "reduced m = (0, 0)")
    case True
    have "Min (insert r (reported_reduced st ` set (c # cs))) = (0, 0)"
      by (rule Min_eqI) (auto simp: rr True promise_least)
    with m v True show ?thesis by simp
  next
    case False
    have s: "(if reduced m < r then reduced m else r) = min (reduced m) r"
      by (auto simp: min_def)
    have "reduce st (c # cs) r = reduce st cs (min (reduced m) r)"
      using m v False by (simp add: s)
    also have "\<dots> = Min (insert (min (reduced m) r) (reported_reduced st ` set cs))"
      using Cons.prems by (intro Cons.IH) simp
    also have "\<dots> = Min (insert r (reported_reduced st ` set (c # cs)))"
      by (simp add: rr Min_insert_min)
    finally show ?thesis .
  qed
qed

lemma reduce_some:
  "\<exists>c\<in>set cs. \<not> reported st c \<Longrightarrow> reduce st cs r = (0, 0)"
  by (induction cs arbitrary: r) (auto simp: reported_def split: option.splits)

lemma representing_fields:
  "constituency representing = [''1'']" "e_promise (head representing) = (2, 0)"
  "promise (government representing) = (2, 0)" "minimums representing = []"
  "leader (government representing) = Some ''0''" "ident representing = ''0''"
  "propagated (minimum representing) = (0, 0)"
  by (simp_all add: representing_def dictator_def head_def arrival_def second_government_def
      leader_def)

lemma report_fields:
  "constituency (report st to0 m) = constituency st" "head (report st to0 m) = head st"
  "government (report st to0 m) = government st" "ident (report st to0 m) = ident st"
  "minimum (report st to0 m) = minimum st"
  by (simp_all add: report_def head_def)

lemma ahead_recomputed:
  "recompute representing ping_constituent ''1'' (Some ahead) =
     (report representing ''1'' ahead)
       \<lparr> minimum := \<lparr> propagated = (2, 0), version = (2, 0), reduced = (2, 0) \<rparr> \<rparr>"
  by (simp add: recompute_def recomputes_def lookup_minimum_def representing_fields report_fields
      Let_def replace_minimum_def ping_constituent_def ahead_def)
     (simp add: report_def representing_fields lookup_minimum_def less_prod_def)

lemma behind_recomputed:
  "recomputes representing ping_constituent ''1'' behind"
  "\<forall>c\<in>set (constituency representing). reported (report representing ''1'' behind) c"
  "reported_reduced (report representing ''1'' behind) ''1'' = (1, 0)"
  by (simp_all add: recomputes_def reported_def reported_reduced_def lookup_minimum_def report_def
      representing_fields ping_constituent_def behind_def)

lemma stale_recomputed:
  "recomputes representing ping_constituent ''1'' stale"
  "\<exists>c\<in>set (constituency representing). \<not> reported (report representing ''1'' stale) c"
  by (simp_all add: recomputes_def reported_def reported_reduced_def lookup_minimum_def report_def
      representing_fields ping_constituent_def stale_def)




















lemma framed_kept: "framed st st' \<Longrightarrow> kept st st'"
  by (simp add: framed_def kept_def)

lemma kept_trans: "kept a b \<Longrightarrow> kept b c \<Longrightarrow> kept a c"
  by (simp add: kept_def)

lemma u_collapse_kept: "kept st (u_collapse x st now)"
  by (simp add: u_collapse_def u_propose_def kept_def)

lemma newGovernment_kept:
  assumes "collaborators_keep x" and "newGovernment x st now q s = Inr st'"
  shows "kept st st'"
proof (cases "writer_slot st")
  case (Writer w)
  from newGovernment_framed[OF assms(2) Writer] show ?thesis by (rule framed_kept)
next
  case (Proposer p)
  from assms(2) Proposer obtain st0 where
    n: "Proposer_nudge x st0 = Inr st'" and k: "kept st st0"
    unfolding newGovernment_def Let_def
    by (auto split: sum.splits option.splits if_splits simp: kept_def)
  from assms(1) n have "kept st0 st'" by (auto simp: collaborators_keep_def)
  with k show ?thesis by (rule kept_trans)
qed

lemma u_reshape_kept:
  "collaborators_keep x \<Longrightarrow> u_reshape x st now sh = Inr st' \<Longrightarrow> kept st st'"
  by (cases sh) (auto simp: u_reshape_def kept_def dest: newGovernment_kept)

lemma unreachable_loop_kept:
  "collaborators_keep x \<Longrightarrow> unreachable_loop x st now kvs = Inr st' \<Longrightarrow> kept st st'"
proof (induction kvs arbitrary: st)
  case Nil
  then show ?case by (simp add: kept_def)
next
  case (Cons kv kvs)
  obtain k v where kv: "kv = (k, v)" by (cases kv)
  show ?case
  proof (cases "map_of (unreachable st) k = Some True")
    case True
    with Cons kv show ?thesis by simp
  next
    case False
    define st1 where "st1 = st\<lparr> unreachable := AList.update k v (unreachable st) \<rparr>"
    have k1: "kept st st1" by (simp add: st1_def kept_def)
    show ?thesis
    proof (cases "shaper st1")
      case Relay
      with Cons.prems False kv have "unreachable_loop x st1 now kvs = Inr st'"
        by (simp add: st1_def Let_def)
      from Cons.IH[OF Cons.prems(1) this] k1 show ?thesis by (rule kept_trans[rotated])
    next
      case (Shaper sh)
      obtain sh1 shape0 where sn: "Shaper_unreachable x sh
                       (case k of None \<Rightarrow> None | Some p \<Rightarrow> map_of (immigrated_id (government st1)) p) = (sh1, shape0)"
        by (cases "Shaper_unreachable x sh
                       (case k of None \<Rightarrow> None | Some p \<Rightarrow> map_of (immigrated_id (government st1)) p)")
      from Cons.prems(2) False kv Shaper sn[unfolded st1_def] obtain st2 where
        r: "u_reshape x (st1\<lparr> shaper := Shaper sh1 \<rparr>) now shape0 = Inr st2"
        and l: "unreachable_loop x st2 now kvs = Inr st'"
        by (auto simp: st1_def Let_def split: sum.splits)
      from u_reshape_kept[OF Cons.prems(1) r] have "kept st1 st2" by (simp add: kept_def)
      with k1 have "kept st st2" by (rule kept_trans)
      from this Cons.IH[OF Cons.prems(1) l] show ?thesis by (rule kept_trans)
    qed
  qed
qed

lemma u_commit_government:
  assumes "u_commit x st now e (Some t) = Inr st'"
  shows "government st' = government st \<or> e_body e = Government (government st')"
proof (cases "e_promise e \<le> t")
  case True
  with assms show ?thesis
    by (auto simp: u_commit_def split: if_splits option.splits)
next
  case False
  with assms obtain st1 where
    st1: "(if Monotonic_isBoundary (e_promise e) 0 then enact x st now e else Inr st) = Inr st1"
    and st': "st' = push st1 now e"
    by (auto simp: u_commit_def split: if_splits sum.splits)
  show ?thesis
  proof (cases "Monotonic_isBoundary (e_promise e) 0")
    case True
    with st1 have "enact x st now e = Inr st1" by simp
    from enact_fields[OF this] st' show ?thesis
      using push_fields[of st1 now e] by simp
  next
    case False
    with st1 st' show ?thesis
      using push_fields[of st now e] by simp
  qed
qed

lemma commits_led:
  "commits x st now es (Some t) = Inr st' \<Longrightarrow> leader (government st) \<noteq> Some i \<Longrightarrow>
     led_by_others i es \<Longrightarrow> leader (government st') \<noteq> Some i"
proof (induction es arbitrary: st t)
  case Nil
  then show ?case by simp
next
  case (Cons e es)
  from Cons.prems(1) obtain st1 where
    c: "u_commit x st now e (Some t) = Inr st1"
    and r: "commits x st1 now es (Some (e_promise (head st1))) = Inr st'"
    by (auto split: sum.splits)
  from u_commit_government[OF c] Cons.prems(2,3) have "leader (government st1) \<noteq> Some i"
    by (auto simp: led_by_others_def)
  moreover from Cons.prems(3) have "led_by_others i es" by (simp add: led_by_others_def)
  ultimately show ?case using r Cons.IH by blast
qed

lemma u_synchronize_keeps:
  assumes "u_synchronize x st now es = Inr (ok, st')"
  shows "ident st' = ident st \<and> trailer st' = trailer st \<and>
         propagated (minimum st') = propagated (minimum st) \<and>
         (\<exists>ks. log st' = log st @ ks) \<and> (\<not> ok \<longrightarrow> st' = st) \<and>
         (leader (government st) \<noteq> Some i \<longrightarrow> led_by_others i es \<longrightarrow>
            leader (government st') \<noteq> Some i)"
proof (cases "es = [] \<or> (e_promise (head st) = (0, 0) \<and> \<not> announces st (hd es))")
  case True
  with assms have "st' = st" by (auto simp: u_synchronize_def split: if_splits)
  then show ?thesis by simp
next
  case False
  with assms have c: "commits x st now es (first_top st es) = Inr st'" and ok: ok
    by (auto simp: u_synchronize_def first_top_def split: if_splits sum.splits)
  from False obtain e es1 where es: "es = e # es1" by (cases es) auto
  from c es obtain t where t: "first_top st es = Some t"
    by (cases "first_top st es") (auto simp: u_commit_def split: sum.splits)
  from commits_accepted[OF c[unfolded t]] commits_led[OF c[unfolded t]] ok show ?thesis
    by auto
qed

lemma shift_trailer_shifted:
  "shift_trailer st = Inr st' \<Longrightarrow>
     st' = st\<lparr> trailer := trailer st' \<rparr> \<and> trailer st \<le> trailer st' \<and>
     (\<forall>i. trailer st \<le> i \<and> i < trailer st' \<longrightarrow>
          i < length (log st) \<and> e_promise (log st ! i) < propagated (minimum st))"
proof (induction st rule: shift_trailer.induct)
  case (1 st)
  show ?case
  proof (cases "trailer st < length (log st) \<and>
      e_promise (log st ! trailer st) < propagated (minimum st)")
    case True
    with "1.prems" have s: "shift_trailer (st\<lparr> trailer := trailer st + 1 \<rparr>) = Inr st'"
      by (subst (asm) shift_trailer.simps) simp
    from "1.IH"[OF _ _ s] True have
      ih: "st' = st\<lparr> trailer := trailer st' \<rparr>" "trailer st + 1 \<le> trailer st'"
        "\<forall>i. trailer st + 1 \<le> i \<and> i < trailer st' \<longrightarrow>
          i < length (log st) \<and> e_promise (log st ! i) < propagated (minimum st)"
      by simp_all
    have "\<forall>i. trailer st \<le> i \<and> i < trailer st' \<longrightarrow>
          i < length (log st) \<and> e_promise (log st ! i) < propagated (minimum st)"
    proof (intro allI impI)
      fix i assume i: "trailer st \<le> i \<and> i < trailer st'"
      show "i < length (log st) \<and> e_promise (log st ! i) < propagated (minimum st)"
      proof (cases "i = trailer st")
        case True
        with \<open>trailer st < length (log st) \<and>
          e_promise (log st ! trailer st) < propagated (minimum st)\<close> show ?thesis by simp
      next
        case False
        with i ih(3) show ?thesis by simp
      qed
    qed
    with ih show ?thesis by simp
  next
    case False
    with "1.prems" have "st' = st"
      by (subst (asm) shift_trailer.simps) (auto split: if_splits)
    then show ?thesis by auto
  qed
qed

lemma answer_state: "answer st rq msg sf = Inr (a, st') \<Longrightarrow> st' = st"
  by (auto simp: answer_def split: sum.splits)

lemma Writer_response_message_kept:
  "Writer_response_message st wm = Inr st' \<Longrightarrow> kept st st'"
proof (cases "writer_slot st")
  case (Proposer p)
  then show "Writer_response_message st wm = Inr st' \<Longrightarrow> kept st st'"
    by (simp add: Writer_response_message_def kept_def)
next
  case (Writer w)
  assume a: "Writer_response_message st wm = Inr st'"
  show "kept st st'"
  proof (cases "wm_method wm")
    case WWrite
    with a Writer obtain st0 m0 where "u_send st0 m0 = Inr st'" and "kept st st0"
      unfolding Writer_response_message_def Let_def
      by (auto split: list.splits if_splits simp: kept_def)
    moreover from u_send_fields[OF this(1)] have "kept st0 st'" by (auto simp: kept_def)
    ultimately show ?thesis using kept_trans by blast
  next
    case WCommit
    with a Writer have "Writer_nudge st (w\<lparr> writing := tl (writing w) \<rparr>) = Inr st'"
      by (simp add: Writer_response_message_def)
    then show ?thesis by (intro framed_kept Writer_nudge_framed)
  next
    case WOther
    with a Writer show ?thesis by (simp add: Writer_response_message_def kept_def)
  qed
qed

lemma Writer_response_loop_kept:
  "Writer_response_loop st wms = Inr st' \<Longrightarrow> kept st st'"
proof (induction wms arbitrary: st)
  case Nil
  then show ?case by (simp add: kept_def)
next
  case (Cons wm wms)
  then obtain st1 where "Writer_response_message st wm = Inr st1"
    and "Writer_response_loop st1 wms = Inr st'"
    by (auto split: sum.splits)
  with Cons.IH show ?case using Writer_response_message_kept kept_trans by blast
qed

lemma recompute_keeps:
  "ident (recompute st m t mo) = ident st \<and> trailer (recompute st m t mo) = trailer st \<and>
   government (recompute st m t mo) = government st \<and> log (recompute st m t mo) = log st \<and>
   (leader (government st) \<noteq> Some (ident st) \<longrightarrow>
      propagated (minimum (recompute st m t mo)) = propagated (minimum st))"
  by (cases mo) (auto simp: recompute_def Let_def report_def replace_minimum_def)

lemma received_cases:
  assumes "received x st rs now m t = (r0, st2, rs1)"
  shows "kept st st2 \<and>
         ((map_of rs t = Some r0 \<and> rs1 = rs) \<or>
          (rs_commits (r_sync r0) = [] \<and> rs1 = AList.update t r0 rs))"
proof -
  define st1 where "st1 = (if m_collapsible m then u_collapse x st now else st)"
  have k: "kept st st1" using u_collapse_kept[of st x now] by (simp add: st1_def kept_def)
  from assms show ?thesis
    unfolding received_def Let_def st1_def[symmetric]
    using k
    by (auto split: option.splits if_splits simp: kept_def unreachable_response_def)
qed

lemma recipient_keeps:
  assumes x: "collaborators_keep x" and n: "never_leader st rs"
    and r: "recipient x st rs now m t = Inr (st', rs')"
  shows "never_leader st' rs' \<and> trailer st' = trailer st \<and>
         propagated (minimum st') = propagated (minimum st)"
proof -
  obtain r0 st2 rs1 where rc: "received x st rs now m t = (r0, st2, rs1)"
    by (cases "received x st rs now m t")
  define st3 where "st3 = (case rs_committed (r_sync r0) of
       Some c \<Rightarrow> st2\<lparr> committed := AList.update
          (map_of (immigrated_promise (government st)) t) c (committed st2) \<rparr>
     | None \<Rightarrow> st2)"
  from received_cases[OF rc] have k2: "kept st st2"
    and alt: "(map_of rs t = Some r0 \<and> rs1 = rs) \<or>
          (rs_commits (r_sync r0) = [] \<and> rs1 = AList.update t r0 rs)" by simp_all
  have k3: "kept st st3" using k2 by (simp add: st3_def kept_def split: option.splits)
  from r rc obtain ok st4 st5 where
    s: "u_synchronize x st3 now (rs_commits (r_sync r0)) = Inr (ok, st4)"
    and u: "unreachable_loop x st4 now (r_unreachable r0) = Inr st5"
    and e: "st' = recompute st5 m t (r_minimum r0)" and rs': "rs' = rs1"
    unfolding recipient_def Let_def st3_def
    by (auto split: sum.splits prod.splits)
  from alt n have led: "led_by_others (ident st) (rs_commits (r_sync r0))"
    by (auto simp: never_leader_def led_by_others_def)
  from alt n have all: "\<forall>t r. map_of rs1 t = Some r \<longrightarrow>
      led_by_others (ident st) (rs_commits (r_sync r))"
    by (auto simp: never_leader_def led_by_others_def update_conv' split: if_splits)
  from n k3 have l3: "leader (government st3) \<noteq> Some (ident st)"
    by (simp add: never_leader_def kept_def)
  from u_synchronize_keeps[OF s, of "ident st"] l3 led k3 have
    f4: "ident st4 = ident st" "trailer st4 = trailer st"
      "propagated (minimum st4) = propagated (minimum st)"
      "leader (government st4) \<noteq> Some (ident st)"
    by (simp_all add: kept_def)
  from unreachable_loop_kept[OF x u] f4 have
    f5: "ident st5 = ident st" "trailer st5 = trailer st"
      "propagated (minimum st5) = propagated (minimum st)"
      "leader (government st5) \<noteq> Some (ident st5)"
    by (simp_all add: kept_def)
  from recompute_keeps[of st5 m t "r_minimum r0"] f5 e all rs' show ?thesis
    by (simp add: never_leader_def)
qed

lemma recipients_keep:
  "collaborators_keep x \<Longrightarrow> never_leader st rs \<Longrightarrow>
   recipients x st rs now m ts = Inr (st', rs') \<Longrightarrow>
     never_leader st' rs' \<and> trailer st' = trailer st \<and>
     propagated (minimum st') = propagated (minimum st)"
proof (induction ts arbitrary: st rs)
  case Nil
  then show ?case by simp
next
  case (Cons t ts)
  from Cons.prems(3) obtain st1 rs1 where
    a: "recipient x st rs now m t = Inr (st1, rs1)"
    and b: "recipients x st1 rs1 now m ts = Inr (st', rs')"
    by (auto split: sum.splits)
  from recipient_keeps[OF Cons.prems(1,2) a] Cons.IH[OF Cons.prems(1) _ b]
  show ?case by simp
qed

lemma response_nonleader:
  assumes x: "collaborators_keep x" and n: "never_leader st rs"
    and r: "response x st now m rs = Inr st'"
  shows "trailer st' = trailer st \<and> propagated (minimum st) \<le> propagated (minimum st')"
proof -
  from r obtain tos st1 rs1 where
    a: "recipients x st rs now m tos = Inr (st1, rs1)"
    and b: "(trailer st' = trailer st1 \<and> minimum st' = minimum st1) \<or>
            Writer_response st1 now m rs1 None = Inr st' \<or>
            Proposer_response x st1 now m rs1 = Inr st'"
    unfolding response_def Let_def
    by (auto split: option.splits sum.splits if_splits strategy.splits)
  from recipients_keep[OF x n a] have
    f: "trailer st1 = trailer st" "propagated (minimum st1) = propagated (minimum st)"
    by simp_all
  from b consider "trailer st' = trailer st1 \<and> minimum st' = minimum st1"
    | "Writer_response st1 now m rs1 None = Inr st'"
    | "Proposer_response x st1 now m rs1 = Inr st'" by blast
  then show ?thesis
  proof cases
    case 1
    with f show ?thesis by simp
  next
    case 2
    then have "kept st1 st'" by (simp add: Writer_response_def Writer_response_loop_kept)
    with f show ?thesis by (simp add: kept_def)
  next
    case 3
    with x have "trailer st' = trailer st1 \<and>
      propagated (minimum st1) \<le> propagated (minimum st')"
      unfolding collaborators_keep_def by blast
    with f show ?thesis by simp
  qed
qed

lemma shift_trailer_keeps:
  assumes "shift_trailer st = Inr st'"
  shows "log st' = log st \<and> minimum st' = minimum st"
proof -
  from shift_trailer_shifted[OF assms] obtain t where "st' = st\<lparr> trailer := t \<rparr>" by blast
  then show ?thesis by simp
qed

lemma shift_trailer_head:
  "shift_trailer st = Inr st' \<Longrightarrow> trailer st' < length (log st')"
proof (induction st rule: shift_trailer.induct)
  case (1 st)
  show ?case
  proof (cases "trailer st < length (log st) \<and>
      e_promise (log st ! trailer st) < propagated (minimum st)")
    case True
    with "1.prems" have s: "shift_trailer (st\<lparr> trailer := trailer st + 1 \<rparr>) = Inr st'"
      by (subst (asm) shift_trailer.simps) simp
    from "1.IH"[OF _ _ s] True show ?thesis by simp
  next
    case False
    with "1.prems" have "st' = st \<and> trailer st < length (log st)"
      by (subst (asm) shift_trailer.simps) (auto split: if_splits)
    then show ?thesis by simp
  qed
qed

lemma request_keeps:
  fixes st :: "'x paxos"
  assumes x: "collaborators_keep x" and r: "request x st now rq = Inr (a, st')"
  shows "propagated (minimum st) \<le> propagated (minimum st') \<and> trailer st \<le> trailer st' \<and>
         (\<forall>i. trailer st \<le> i \<and> i < trailer st' \<longrightarrow>
            i < length (log st') \<and> e_promise (log st' ! i) < propagated (minimum st')) \<and>
         (trailer st < length (log st) \<longrightarrow> trailer st' < length (log st'))"
proof -
  define st1 where "st1 =
    (if Monotonic_compare (propagated (minimum st)) (propagated (s_minimum (rq_sync rq))) < 0
     then st\<lparr> minimum := (minimum st)\<lparr> propagated := propagated (s_minimum (rq_sync rq)) \<rparr> \<rparr>
     else st)"
  have p1: "propagated (minimum st) \<le> propagated (minimum st1)" and t1: "trailer st1 = trailer st"
    and l1: "log st1 = log st"
    by (auto simp: st1_def)
  show ?thesis
  proof (cases "Monotonic_compare (s_committed (rq_sync rq)) (e_promise (head st)) < 0")
    case True
    with r have "answer st1 rq \<lparr> rp_method = Reject, rp_promise = Some (e_promise (head st)) \<rparr>
             (Some (s_committed (rq_sync rq))) = Inr (a, st')"
      unfolding request_def Let_def st1_def[symmetric] by simp
    from answer_state[OF this] p1 t1 l1 show ?thesis by auto
  next
    case False
    note fresh = this
    with r obtain ok st2 where s: "u_synchronize x st1 now (s_commits (rq_sync rq)) = Inr (ok, st2)"
      unfolding request_def Let_def st1_def[symmetric] by (auto split: sum.splits)
    from u_synchronize_keeps[OF s] obtain ks where
      f2: "trailer st2 = trailer st1" "propagated (minimum st2) = propagated (minimum st1)"
        "log st2 = log st1 @ ks" by auto
    show ?thesis
    proof (cases ok)
      case False
      with r s fresh
      have "answer st2 rq \<lparr> rp_method = Unreachable, rp_promise = None \<rparr> None = Inr (a, st')"
        unfolding request_def Let_def st1_def[symmetric] by simp
      from answer_state[OF this] p1 t1 l1 f2 show ?thesis by auto
    next
      case True
      define st4 where "st4 = (\<lambda>st3 :: 'x paxos. if ident st3 \<in> set (tl (majority (government st3)))
                                 then st3\<lparr> scheduler := AList.update (ident st3)
                                            (Some (now + timeout st3), Ev_collapse) (scheduler st3) \<rparr>
                                 else st3)"
      have k4: "\<And>st3. trailer (st4 st3) = trailer st3 \<and> minimum (st4 st3) = minimum st3 \<and>
          log (st4 st3) = log st3" by (simp add: st4_def)
      from r s fresh True obtain st3 where
        sh: "(if e_promise (head st2) \<noteq> (0, 0) then shift_trailer st2 else Inr st2) = Inr st3"
        unfolding request_def Let_def st1_def[symmetric] by (auto split: sum.splits)
      with r s fresh True obtain msg st5 where
        rec: "(if m_method (rq_message rq) = Synchronize
                               then Inr (\<lparr> rp_method = Respond,
                                           rp_promise = Some (e_promise (head st2)) \<rparr>, st4 st3)
                               else Recorder_request x (st4 st3) now (rq_message rq)) = Inr (msg, st5)"
        and an: "answer st5 rq msg None = Inr (a, st')"
        unfolding request_def Let_def st1_def[symmetric] st4_def
        by (simp split: sum.splits prod.splits)
      have f3: "trailer st2 \<le> trailer st3 \<and> log st3 = log st2 \<and> minimum st3 = minimum st2 \<and>
        (trailer st2 < length (log st2) \<longrightarrow> trailer st3 < length (log st3)) \<and>
        (\<forall>i. trailer st2 \<le> i \<and> i < trailer st3 \<longrightarrow>
          i < length (log st2) \<and> e_promise (log st2 ! i) < propagated (minimum st2))"
      proof (cases "e_promise (head st2) \<noteq> (0, 0)")
        case True
        with sh have "shift_trailer st2 = Inr st3" by simp
        from shift_trailer_shifted[OF this] shift_trailer_keeps[OF this] shift_trailer_head[OF this]
        show ?thesis by blast
      next
        case False
        with sh have "st3 = st2" by simp
        then show ?thesis by auto
      qed
      have f5: "trailer st5 = trailer st3 \<and>
          propagated (minimum st3) \<le> propagated (minimum st5) \<and>
          take (length (log st3)) (log st5) = log st3"
      proof (cases "m_method (rq_message rq) = Synchronize")
        case True
        with rec k4[of st3] show ?thesis by auto
      next
        case False
        with rec have "Recorder_request x (st4 st3) now (rq_message rq) = Inr (msg, st5)" by simp
        with x have "trailer st5 = trailer (st4 st3) \<and>
          propagated (minimum (st4 st3)) \<le> propagated (minimum st5) \<and>
          take (length (log (st4 st3))) (log st5) = log (st4 st3)"
          unfolding collaborators_keep_def by blast
        with k4[of st3] show ?thesis by simp
      qed
      from answer_state[OF an] have e: "st' = st5" .
      have q: "propagated (minimum st1) \<le> propagated (minimum st5)"
        and q2: "propagated (minimum st2) \<le> propagated (minimum st5)"
        using f2 f3 f5 by simp_all
      have le: "propagated (minimum st) \<le> propagated (minimum st')"
        using order_trans[OF p1 q] e by simp
      have tr: "trailer st \<le> trailer st'" using t1 f2 f3 f5 e by simp
      have "\<forall>i. trailer st \<le> i \<and> i < trailer st' \<longrightarrow>
            i < length (log st') \<and> e_promise (log st' ! i) < propagated (minimum st')"
      proof (intro allI impI)
        fix i assume i: "trailer st \<le> i \<and> i < trailer st'"
        with t1 f2 f3 f5 e have a: "i < length (log st2)"
          and b: "e_promise (log st2 ! i) < propagated (minimum st2)" by auto
        from f5 f3 e have "take (length (log st2)) (log st') = log st2" by simp
        then have c: "log st' ! i = log st2 ! i" and d: "i < length (log st')"
          using a by (metis nth_take, metis length_take min_less_iff_conj)
        from less_le_trans[OF b q2] e
        have "e_promise (log st2 ! i) < propagated (minimum st')" by simp
        with c d show "i < length (log st') \<and> e_promise (log st' ! i) < propagated (minimum st')"
          by simp
      qed
      moreover have "trailer st < length (log st) \<longrightarrow> trailer st' < length (log st')"
      proof
        assume "trailer st < length (log st)"
        with t1 l1 f2 f3 have a: "trailer st3 < length (log st3)" by auto
        from f5 have "length (take (length (log st3)) (log st5)) = length (log st3)" by simp
        then have "length (log st3) \<le> length (log st5)" by simp
        with a f5 e show "trailer st' < length (log st')" by simp
      qed
      ultimately show ?thesis using le tr by blast
    qed
  qed
qed

lemma informed_reached:
  "response idle representing 5 ping_constituent [(''1'', reply caught_up)] = Inr informed"
  by (simp add: response_def recipient_def received_def recompute_def recomputes_def report_def
      lookup_minimum_def u_synchronize_def reply_def caught_up_def informed_def
      representing_def dictator_def arrival_def second_government_def ping_constituent_def
      collapsed_def less_prod_def less_eq_prod_def model_defs)

lemma informed_lowered:
  "propagated (minimum informed) = (2, 0)"
  "propagated_after (response idle informed 6 ping_constituent [(''1'', reply behind)]) =
     Some (1, 0)"
  by (simp_all add: propagated_after_def response_def recipient_def received_def recompute_def
      recomputes_def report_def lookup_minimum_def u_synchronize_def reply_def
      caught_up_def behind_def informed_def representing_def dictator_def arrival_def
      second_government_def ping_constituent_def collapsed_def less_prod_def less_eq_prod_def
      model_defs)

lemma recipient_trailer:
  assumes x: "collaborators_keep x" and r: "recipient x st rs now m t = Inr (st', rs')"
  shows "trailer st' = trailer st"
proof -
  obtain r0 st2 rs1 where rc: "received x st rs now m t = (r0, st2, rs1)"
    by (cases "received x st rs now m t")
  define st3 where "st3 = (case rs_committed (r_sync r0) of
       Some c \<Rightarrow> st2\<lparr> committed := AList.update
          (map_of (immigrated_promise (government st)) t) c (committed st2) \<rparr>
     | None \<Rightarrow> st2)"
  from received_cases[OF rc] have "kept st st2" by simp
  then have k3: "trailer st3 = trailer st" by (simp add: st3_def kept_def split: option.splits)
  from r rc obtain ok st4 st5 where
    s: "u_synchronize x st3 now (rs_commits (r_sync r0)) = Inr (ok, st4)"
    and u: "unreachable_loop x st4 now (r_unreachable r0) = Inr st5"
    and e: "st' = recompute st5 m t (r_minimum r0)"
    unfolding recipient_def Let_def st3_def
    by (auto split: sum.splits prod.splits)
  from u_synchronize_keeps[OF s] have "trailer st4 = trailer st3" by simp
  moreover from unreachable_loop_kept[OF x u] have "trailer st5 = trailer st4"
    by (simp add: kept_def)
  ultimately show ?thesis using recompute_keeps[of st5 m t "r_minimum r0"] e k3 by simp
qed

lemma recipients_trailer:
  "collaborators_keep x \<Longrightarrow> recipients x st rs now m ts = Inr (st', rs') \<Longrightarrow>
     trailer st' = trailer st"
proof (induction ts arbitrary: st rs)
  case Nil
  then show ?case by simp
next
  case (Cons t ts)
  from Cons.prems(2) obtain st1 rs1 where
    a: "recipient x st rs now m t = Inr (st1, rs1)"
    and b: "recipients x st1 rs1 now m ts = Inr (st', rs')"
    by (auto split: sum.splits)
  from recipient_trailer[OF Cons.prems(1) a] Cons.IH[OF Cons.prems(1) b]
  show ?case by simp
qed

lemma response_trailer:
  assumes x: "collaborators_keep x" and r: "response x st now m rs = Inr st'"
  shows "trailer st' = trailer st"
proof -
  from r obtain tos st1 rs1 where
    a: "recipients x st rs now m tos = Inr (st1, rs1)"
    and b: "(trailer st' = trailer st1 \<and> minimum st' = minimum st1) \<or>
            Writer_response st1 now m rs1 None = Inr st' \<or>
            Proposer_response x st1 now m rs1 = Inr st'"
    unfolding response_def Let_def
    by (auto split: option.splits sum.splits if_splits strategy.splits)
  from recipients_trailer[OF x a] have f: "trailer st1 = trailer st" .
  from b consider "trailer st' = trailer st1 \<and> minimum st' = minimum st1"
    | "Writer_response st1 now m rs1 None = Inr st'"
    | "Proposer_response x st1 now m rs1 = Inr st'" by blast
  then show ?thesis
  proof cases
    case 1
    with f show ?thesis by simp
  next
    case 2
    then have "kept st1 st'" by (simp add: Writer_response_def Writer_response_loop_kept)
    with f show ?thesis by (simp add: kept_def)
  next
    case 3
    with x have "trailer st' = trailer st1" unfolding collaborators_keep_def by blast
    with f show ?thesis by simp
  qed
qed




lemma newGovernment_proposer:
  assumes "newGovernment x st now q s = Inr st'" and "writer_slot st = Proposer p"
  shows "\<exists>g st0. promise g = (fst (promise (government st)) + 1, 0) \<and>
           writer_slot st0 =
             Proposer (Proposer_unshift x p (government_proposal q (promise g) g)) \<and>
           promised st0 = Some (promise g) \<and> Proposer_nudge x st0 = Inr st'"
proof -
  from assms obtain g where g: "completed (government st) s None = Inr g"
    and n: "Proposer_nudge x
              (st\<lparr> shaper := decide x (shaper st),
                    promised := Some (Monotonic_increment (promise (government st)) 0),
                    writer_slot := Proposer (Proposer_unshift x p
                      (government_proposal q (Monotonic_increment (promise (government st)) 0) g)) \<rparr>)
            = Inr st'"
    unfolding newGovernment_def Let_def
    by (auto split: sum.splits option.splits if_splits)
  from completed_promise[OF g] have p: "promise g = (fst (promise (government st)) + 1, 0)" .
  then have m: "Monotonic_increment (promise (government st)) 0 = promise g"
    by (simp add: Monotonic_increment_def)
  show ?thesis
    by (rule exI[of _ g], rule exI[of _ "st\<lparr> shaper := decide x (shaper st),
                    promised := Some (promise g),
                    writer_slot := Proposer (Proposer_unshift x p
                      (government_proposal q (promise g) g)) \<rparr>"])
       (use n p m in simp)
qed

lemma recovering_fields:
  "writer_slot recovering = Proposer ()" "fst (promise (government recovering)) + 1 = 2"
  by (simp_all add: recovering_def u_collapse_def u_propose_def dictator_def idle_def
      bootstrap_government_def Let_def)

lemma recovering_governs:
  "\<exists>st'. newGovernment idle recovering 5 [''0''] invitation = Inr st'"
  by (simp add: newGovernment_def recovering_def u_collapse_def u_propose_def dictator_def
      completed_def invitation_def decide_def government_proposal_def model_defs)

lemma commits_admitted:
  "admitted (ident st) (promise (government st)) t es \<Longrightarrow>
     \<exists>st'. commits x st now es (Some t) = Inr st' \<and> log st' = log st @ es"
proof (induction es arbitrary: st t)
  case Nil
  then show ?case by simp
next
  case (Cons e es)
  from Cons.prems have p: "e_previous e = Some t" by simp
  show ?case
  proof (cases "Monotonic_isBoundary (e_promise e) 0")
    case True
    with Cons.prems obtain g1 where g: "e_body e = Government g1"
      and l: "leader g1 \<noteq> Some (ident st)" and t: "t < e_promise e"
      and lt: "promise (government st) < e_promise e"
      and a: "admitted (ident st) (promise g1) (e_promise e) es"
      by (auto split: body.splits)
    define st1 where "st1 = push (settle ((install x st e g1)\<lparr> shaper := Relay \<rparr>) now) now e"
    from g l lt have en: "enact x st now e = Inr (settle ((install x st e g1)\<lparr> shaper := Relay \<rparr>) now)"
      by (auto simp: enact_def)
    from True p t en have c: "u_commit x st now e (Some t) = Inr st1"
      by (simp add: u_commit_def st1_def not_le[symmetric])
    have f: "log st1 = log st @ [e]" "ident st1 = ident st" "government st1 = g1"
      using push_fields[of "settle ((install x st e g1)\<lparr> shaper := Relay \<rparr>) now" now e]
        settle_fields[of "(install x st e g1)\<lparr> shaper := Relay \<rparr>" now]
        install_fields[of x st e g1]
      by (simp_all add: st1_def)
    then have h: "e_promise (head st1) = e_promise e" by (simp add: head_def)
    from a f have "admitted (ident st1) (promise (government st1)) (e_promise e) es" by simp
    from Cons.IH[OF this] obtain st' where
      "commits x st1 now es (Some (e_promise e)) = Inr st'" "log st' = log st1 @ es"
      by blast
    with c h f show ?thesis by simp
  next
    case False
    with Cons.prems have i: "e_promise e = Monotonic_increment t 1"
      and a: "admitted (ident st) (promise (government st)) (e_promise e) es"
      by auto
    from i have gt: "\<not> e_promise e \<le> t"
      by (auto simp: Monotonic_increment_def less_eq_prod_def)
    have c: "u_commit x st now e (Some t) = Inr (push st now e)"
      using p i False gt by (simp add: u_commit_def)
    have h: "e_promise (head (push st now e)) = e_promise e"
      using push_fields[of st now e] by (simp add: head_def)
    from a have "admitted (ident (push st now e)) (promise (government (push st now e)))
        (e_promise e) es"
      using push_fields[of st now e] by simp
    from Cons.IH[OF this] obtain st' where
      "commits x (push st now e) now es (Some (e_promise e)) = Inr st'"
      "log st' = log (push st now e) @ es"
      by blast
    with c h show ?thesis
      using push_fields[of st now e] by simp
  qed
qed

lemma synchronize_admitted:
  assumes "es \<noteq> []" and "first_top st es = Some t"
    and "admitted (ident st) (promise (government st)) t es"
    and "e_promise (head st) = (0, 0) \<longrightarrow> announces st (hd es)"
  shows "\<exists>st'. u_synchronize x st now es = Inr (True, st') \<and> log st' = log st @ es"
proof -
  from commits_admitted[OF assms(3)] obtain st' where
    c: "commits x st now es (Some t) = Inr st'" and l: "log st' = log st @ es"
    by blast
  show ?thesis
  proof (cases "e_promise (head st) = (0, 0)")
    case True
    with assms(2) have "e_previous (hd es) = Some t" by (simp add: first_top_def)
    with True assms(1,4) c l show ?thesis
      by (simp add: u_synchronize_def)
  next
    case False
    with assms(2) have "Some (e_promise (head st)) = Some t" by (simp add: first_top_def)
    with False assms(1) c l show ?thesis
      by (simp add: u_synchronize_def)
  qed
qed

lemma arrival_admitted:
  "first_top newcomer [arrival, first_message] = Some (1, 0)"
  "admitted (ident newcomer) (promise (government newcomer)) (1, 0) [arrival, first_message]"
  by (simp_all add: first_top_def newcomer_def Paxos_def Let_def head_def arrival_def
      first_message_def second_government_def null_government_def leader_def
      Monotonic_isBoundary_def Monotonic_increment_def less_prod_def less_eq_prod_def)

section \<open>The claims\<close>






text \<open>
  C1, as stated: \<open>_synchronize\<close> applies the commits to the log in order if and only if
  the head promise is not \<open>0/0\<close> and each commit's previous is the head promise, or the
  head promise is \<open>0/0\<close> and the first commit announces this citizen's immigration. It
  fails on the dictator for a single commit \<open>1/5\<close> whose previous is the head promise
  \<open>1/0\<close>: \<open>_commit\<close> asserts that a commit that is not a government carries the
  increment-minor of the head promise, and nothing is applied.
\<close>

theorem synchronize_counterexample:
  "\<not> (applied idle dictator 4 [stray] \<longleftrightarrow>
       previous_matches dictator [stray] \<or> immigration_matches dictator [stray])"
  by (simp add: applied_def stray_eval previous_matches_def) (simp add: dictator_def stray_def head_def)

text \<open>
  C1, amended. On an empty batch \<open>_synchronize\<close> returns true and changes nothing. On a
  non-empty batch it returns false, leaving the citizen unchanged, when the head promise
  is \<open>0/0\<close> and the first commit is not a government boundary entry whose immigrate
  record carries this citizen's id and cookie. Otherwise it hands the commits in order to
  \<open>_commit\<close>, which skips a commit whose promise is not greater than the head promise
  (for the first commit under head \<open>0/0\<close>: than that commit's own previous) and appends
  another commit only when its previous is that promise and it is a government boundary
  entry or carries the increment-minor of that promise: whenever \<open>_synchronize\<close> returns
  then, it returns true and the log has grown by exactly the commits not skipped, in
  order. A batch of commits chained by increment-minor from a head other than \<open>0/0\<close> is
  applied whole. So is any batch in which every commit's previous is the promise before
  it (for the first commit: the head promise, or under head \<open>0/0\<close> its own previous)
  and every commit either carries the increment-minor of that promise or is a government
  entry with a promise greater than that promise and than the current government's,
  whose government has another leader than this citizen, provided that under head \<open>0/0\<close>
  the first commit announces this citizen's immigration.
\<close>

theorem synchronize_amended:
  "(es = [] \<longrightarrow> u_synchronize x st now es = Inr (True, st)) \<and>
   (es \<noteq> [] \<and> e_promise (head st) = (0, 0) \<and> \<not> announces st (hd es) \<longrightarrow>
      u_synchronize x st now es = Inr (False, st)) \<and>
   (es \<noteq> [] \<and> \<not> (e_promise (head st) = (0, 0) \<and> \<not> announces st (hd es)) \<and>
    u_synchronize x st now es = Inr (ok, st') \<longrightarrow>
      ok \<and> (\<exists>t ks. first_top st es = Some t \<and>
                accepted (e_promise (head st)) t es = Some ks \<and> log st' = log st @ ks)) \<and>
   (e_promise (head st) \<noteq> (0, 0) \<and> minor_chain (e_promise (head st)) es \<longrightarrow>
      (\<exists>st1. u_synchronize x st now es = Inr (True, st1) \<and> log st1 = log st @ es)) \<and>
   (es \<noteq> [] \<and> first_top st es = Some t \<and>
    admitted (ident st) (promise (government st)) t es \<and>
    (e_promise (head st) = (0, 0) \<longrightarrow> announces st (hd es)) \<longrightarrow>
      (\<exists>st1. u_synchronize x st now es = Inr (True, st1) \<and> log st1 = log st @ es))"
proof (intro conjI impI)
  assume "es = []"
  then show "u_synchronize x st now es = Inr (True, st)" by (simp add: u_synchronize_def)
next
  assume "es \<noteq> [] \<and> e_promise (head st) = (0, 0) \<and> \<not> announces st (hd es)"
  then show "u_synchronize x st now es = Inr (False, st)" by (simp add: u_synchronize_def)
next
  assume a: "es \<noteq> [] \<and> \<not> (e_promise (head st) = (0, 0) \<and> \<not> announces st (hd es)) \<and>
    u_synchronize x st now es = Inr (ok, st')"
  then have c: "commits x st now es (first_top st es) = Inr st'" and ok: "ok"
    by (auto simp: u_synchronize_def first_top_def split: if_splits sum.splits)
  then obtain t where t: "first_top st es = Some t"
    using a by (cases "first_top st es"; cases es) (auto simp: u_commit_def split: sum.splits)
  from commits_accepted[OF c[unfolded t]] t
  show "\<exists>t ks. first_top st es = Some t \<and>
                accepted (e_promise (head st)) t es = Some ks \<and> log st' = log st @ ks"
    by blast
  from ok show ok .
next
  assume a: "e_promise (head st) \<noteq> (0, 0) \<and> minor_chain (e_promise (head st)) es"
  then obtain st1 where "commits x st now es (Some (e_promise (head st))) = Inr st1"
    "log st1 = log st @ es"
    using commits_minor_chain[of "e_promise (head st)" es st x now] by blast
  with a show "\<exists>st1. u_synchronize x st now es = Inr (True, st1) \<and> log st1 = log st @ es"
    by (cases es) (auto simp: u_synchronize_def)
next
  assume "es \<noteq> [] \<and> first_top st es = Some t \<and>
    admitted (ident st) (promise (government st)) t es \<and>
    (e_promise (head st) = (0, 0) \<longrightarrow> announces st (hd es))"
  then show "\<exists>st1. u_synchronize x st now es = Inr (True, st1) \<and> log st1 = log st @ es"
    using synchronize_admitted[of es st t x now] by blast
qed

theorem synchronize_amended_witness:
  "u_synchronize idle newcomer 4 [] = Inr (True, newcomer) \<and>
   u_synchronize idle newcomer 4 [stray] = Inr (False, newcomer) \<and>
   (\<exists>st'. u_synchronize idle newcomer 4 [arrival, first_message] = Inr (True, st') \<and>
      accepted (0, 0) (1, 0) [arrival, first_message] = Some [arrival, first_message] \<and>
      log st' = log newcomer @ [arrival, first_message]) \<and>
   (\<exists>st1. u_synchronize idle dictator 4 [next_message] = Inr (True, st1) \<and>
      log st1 = log dictator @ [next_message]) \<and>
   admitted (ident newcomer) (promise (government newcomer)) (1, 0) [arrival, first_message] \<and>
   announces newcomer arrival \<and>
   (\<exists>st1. u_synchronize idle newcomer 4 [arrival, first_message] = Inr (True, st1) \<and>
      log st1 = log newcomer @ [arrival, first_message])"
proof -
  have h: "e_promise (head newcomer) = (0, 0)" "e_promise (head dictator) \<noteq> (0, 0)"
    "\<not> announces newcomer stray" "announces newcomer arrival"
    by (simp_all add: newcomer_def dictator_def Paxos_def Let_def head_def announces_def stray_def
        arrival_def second_government_def Monotonic_isBoundary_def)
  have ne: "[arrival, first_message] \<noteq> []" by simp
  have h5: "announces newcomer (hd [arrival, first_message])" using h(4) by simp
  note g = synchronize_amended[of "[arrival, first_message]" idle newcomer 4 True newcomer "(1, 0)",
      THEN conjunct2, THEN conjunct2, THEN conjunct2, THEN conjunct2, rule_format,
      OF conjI[OF ne conjI[OF arrival_admitted(1) conjI[OF arrival_admitted(2)
           impI[OF h5]]]]]
  from g obtain st' where
    a: "u_synchronize idle newcomer 4 [arrival, first_message] = Inr (True, st')"
      "log st' = log newcomer @ [arrival, first_message]"
    by blast
  have k: "accepted (0, 0) (1, 0) [arrival, first_message] = Some [arrival, first_message]"
    by (simp add: arrival_def first_message_def less_eq_prod_def Monotonic_isBoundary_def
        Monotonic_increment_def)
  have c1: "u_synchronize idle newcomer 4 [] = Inr (True, newcomer)"
    using synchronize_amended[of "[]" idle newcomer 4 True newcomer "(1, 0)"] by simp
  have c2: "u_synchronize idle newcomer 4 [stray] = Inr (False, newcomer)"
    using synchronize_amended[of "[stray]" idle newcomer 4 False newcomer "(1, 0)"] h by simp
  have c4: "\<exists>st1. u_synchronize idle dictator 4 [next_message] = Inr (True, st1) \<and>
      log st1 = log dictator @ [next_message]"
    using synchronize_amended[of "[next_message]" idle dictator 4 True dictator "(1, 0)",
        THEN conjunct2, THEN conjunct2, THEN conjunct2, THEN conjunct1] h next_message_chain
    by blast
  have "\<exists>t ks. first_top newcomer [arrival, first_message] = Some t \<and>
      accepted (e_promise (head newcomer)) t [arrival, first_message] = Some ks \<and>
      log st' = log newcomer @ ks"
    using synchronize_amended[of "[arrival, first_message]" idle newcomer 4 True st' "(1, 0)",
        THEN conjunct2, THEN conjunct2, THEN conjunct1] a(1) h5 ne
    by blast
  with arrival_admitted(1) h(1) k a(1)
  have c3: "\<exists>st'. u_synchronize idle newcomer 4 [arrival, first_message] = Inr (True, st') \<and>
      accepted (0, 0) (1, 0) [arrival, first_message] = Some [arrival, first_message] \<and>
      log st' = log newcomer @ [arrival, first_message]"
    by auto
  from c1 c2 c3 c4 arrival_admitted(2) h(4) g show ?thesis by blast
qed

text \<open>
  C5, as stated: every government entry accepted by \<open>_commit\<close> has the promise
  \<open>(previous.g + 1)/0\<close>. A fresh citizen accepts a government entry \<open>5/0\<close> whose previous
  is \<open>0/0\<close>: \<open>_commit\<close> compares a government's promise with the head promise and with
  the current government's promise, and asks for no more than a greater one.
\<close>

theorem government_major_counterexample:
  "government_accepted idle newcomer 4 leap (Some (0, 0)) \<and>
   e_previous leap = Some (0, 0) \<and> e_promise leap \<noteq> (fst (0, 0) + 1, 0)"
  using leap_accepted by (simp add: leap_def)

text \<open>
  C5, amended. For a citizen whose government has promise \<open>g/r\<close>, \<open>newGovernment\<close> hands
  the new government under promise \<open>(g+1)/0\<close> to the writer slot: a writer has it at the
  head of its queue, or in flight when nothing was; a proposer, which holds the slot
  during Paxos recovery, is given it through \<open>unshift\<close> before it is nudged, and
  \<open>_promised\<close> is set to \<open>(g+1)/0\<close>. Every government entry accepted by \<open>_commit\<close> has
  round 0, a previous equal to the promise it is committed on top of, and a promise
  greater than that promise and than the current government's.
\<close>

theorem government_promise:
  "(writer_slot st = Writer w \<and> newGovernment x st now q s = Inr st' \<longrightarrow>
      (\<exists>w' g. writer_slot st' = Writer w' \<and>
         promise g = (fst (promise (government st)) + 1, 0) \<and>
         (if writing w = [] then writing w' = [government_proposal q (promise g) g]
          else writing w' = writing w \<and> proposals w' \<noteq> [] \<and>
               hd (proposals w') = government_proposal q (promise g) g))) \<and>
   (writer_slot st = Proposer p \<and> newGovernment x st now q s = Inr st' \<longrightarrow>
      (\<exists>g st0. promise g = (fst (promise (government st)) + 1, 0) \<and>
         writer_slot st0 =
           Proposer (Proposer_unshift x p (government_proposal q (promise g) g)) \<and>
         promised st0 = Some (promise g) \<and> Proposer_nudge x st0 = Inr st')) \<and>
   (government_accepted x st now e (Some t) \<longrightarrow>
      snd (e_promise e) = 0 \<and> e_previous e = Some t \<and> t < e_promise e \<and>
      promise (government st) < e_promise e)"
  using newGovernment_queue[of x st now q s st' w] newGovernment_proposer[of x st now q s st' p]
    government_accepted_bounds[of x st now e t]
  by blast

theorem government_promise_witness:
  "writer_slot dictator = Writer (new_Writer (1, 0)) \<and>
   newGovernment idle dictator 4 [''0''] invitation = Inr proposing \<and>
   (\<exists>w' g. writer_slot proposing = Writer w' \<and> promise g = (2, 0) \<and>
      writing w' = [government_proposal [''0''] (2, 0) g]) \<and>
   writer_slot recovering = Proposer () \<and>
   (\<exists>st' g st0. newGovernment idle recovering 5 [''0''] invitation = Inr st' \<and>
      promise g = (2, 0) \<and>
      writer_slot st0 =
        Proposer (Proposer_unshift idle () (government_proposal [''0''] (2, 0) g)) \<and>
      promised st0 = Some (2, 0) \<and> Proposer_nudge idle st0 = Inr st') \<and>
   government_accepted idle newcomer 4 leap (Some (0, 0)) \<and>
   snd (e_promise leap) = 0 \<and> e_previous leap = Some (0, 0) \<and> (0, 0) < e_promise leap \<and>
   promise (government newcomer) < e_promise leap"
proof -
  have w: "writer_slot dictator = Writer (new_Writer (1, 0))"
    and g: "fst (promise (government dictator)) + 1 = 2"
    and e: "writing (new_Writer (1, 0)) = []"
    by (simp_all add: dictator_def bootstrap_government_def new_Writer_def)
  note t1 = government_promise[of dictator "new_Writer (1, 0)" idle 4 "[''0'']" invitation
      proposing "()" leap "(0, 0)", THEN conjunct1, rule_format,
      OF conjI[OF w newGovernment_proposing]]
  from recovering_governs obtain st1 where
    r: "newGovernment idle recovering 5 [''0''] invitation = Inr st1" by blast
  note t2 = government_promise[of recovering "new_Writer (1, 0)" idle 5 "[''0'']" invitation
      st1 "()" leap "(0, 0)", THEN conjunct2, THEN conjunct1, rule_format,
      OF conjI[OF recovering_fields(1) r]]
  note t3 = government_promise[of newcomer "new_Writer (1, 0)" idle 4 "[''0'']" invitation
      proposing "()" leap "(0, 0)", THEN conjunct2, THEN conjunct2, rule_format, OF leap_accepted]
  from t1 obtain w' g0 where "writer_slot proposing = Writer w'" "promise g0 = (2, 0)"
    "writing w' = [government_proposal [''0''] (2, 0) g0]"
    unfolding g e by auto
  then have p1: "\<exists>w' g. writer_slot proposing = Writer w' \<and> promise g = (2, 0) \<and>
      writing w' = [government_proposal [''0''] (2, 0) g]"
    by blast
  from t2 obtain g1 st0 where "promise g1 = (2, 0)"
    "writer_slot st0 =
       Proposer (Proposer_unshift idle () (government_proposal [''0''] (2, 0) g1))"
    "promised st0 = Some (2, 0)" "Proposer_nudge idle st0 = Inr st1"
    unfolding recovering_fields(2) by auto
  with r have p2: "\<exists>st' g st0. newGovernment idle recovering 5 [''0''] invitation = Inr st' \<and>
      promise g = (2, 0) \<and>
      writer_slot st0 =
        Proposer (Proposer_unshift idle () (government_proposal [''0''] (2, 0) g)) \<and>
      promised st0 = Some (2, 0) \<and> Proposer_nudge idle st0 = Inr st'"
    by blast
  from w newGovernment_proposing p1 recovering_fields(1) p2 leap_accepted t3 show ?thesis
    by blast
qed

text \<open>
  C7, as stated: the recomputed \<open>reduced\<close> is the minimum of the constituents' reduced
  values when every constituent has reported under the current government version. It
  fails where the only constituent reports a reduced promise \<open>2/5\<close> beyond the citizen's
  own head promise \<open>2/0\<close>: the loop starts from the head promise, which stays the result.
\<close>

theorem reduced_counterexample:
  "recomputes representing ping_constituent ''1'' ahead \<and>
   reported (report representing ''1'' ahead) ''1'' \<and>
   reduced (minimum (recompute representing ping_constituent ''1'' (Some ahead))) \<noteq>
     Min (reported_reduced (report representing ''1'' ahead) ` set (constituency representing))"
  by (simp add: ahead_recomputed)
     (simp add: recomputes_def reported_def reported_reduced_def lookup_minimum_def report_def
       representing_fields ping_constituent_def ahead_def)

text \<open>
  C7, amended. When a response's minimum is taken up, the recomputed \<open>reduced\<close> is the
  minimum of the citizen's own head promise and its constituents' reduced values when
  every constituent has a report under the current government version, and \<open>0/0\<close> when
  some constituent has none; the new version is the government's promise; the leader
  (majority[0]) takes the recomputed \<open>reduced\<close> as its \<open>propagated\<close>, any other citizen
  keeps its \<open>propagated\<close>. A response whose minimum is not taken up leaves the minimum
  as it was.
\<close>

theorem minimum_recomputed:
  "(recomputes st message0 to0 m \<longrightarrow>
      ((\<forall>c\<in>set (constituency st). reported (report st to0 m) c) \<longrightarrow>
         reduced (minimum (recompute st message0 to0 (Some m))) =
           Min (insert (e_promise (head st))
                  (reported_reduced (report st to0 m) ` set (constituency st)))) \<and>
      ((\<exists>c\<in>set (constituency st). \<not> reported (report st to0 m) c) \<longrightarrow>
         reduced (minimum (recompute st message0 to0 (Some m))) = (0, 0)) \<and>
      version (minimum (recompute st message0 to0 (Some m))) = promise (government st) \<and>
      propagated (minimum (recompute st message0 to0 (Some m))) =
        (if Some (ident st) = leader (government st)
         then reduced (minimum (recompute st message0 to0 (Some m)))
         else propagated (minimum st))) \<and>
   (\<not> recomputes st message0 to0 m \<longrightarrow> recompute st message0 to0 (Some m) = st) \<and>
   recompute st message0 to0 None = st"
proof -
  have r: "recomputes st message0 to0 m \<Longrightarrow>
      reduced (minimum (recompute st message0 to0 (Some m))) =
        reduce (report st to0 m) (constituency st) (e_promise (head st))"
    by (simp add: recompute_def Let_def replace_minimum_def report_fields)
  show ?thesis
    using reduce_all[of "constituency st" "report st to0 m" "e_promise (head st)"]
      reduce_some[of "constituency st" "report st to0 m" "e_promise (head st)"]
    by (auto simp: r) (simp_all add: recompute_def Let_def replace_minimum_def report_fields)
qed

theorem minimum_recomputed_witness:
  "recomputes representing ping_constituent ''1'' behind \<and>
   reduced (minimum (recompute representing ping_constituent ''1'' (Some behind))) = (1, 0) \<and>
   propagated (minimum (recompute representing ping_constituent ''1'' (Some behind))) = (1, 0) \<and>
   recomputes representing ping_constituent ''1'' stale \<and>
   reduced (minimum (recompute representing ping_constituent ''1'' (Some stale))) = (0, 0) \<and>
   recompute representing ping_constituent ''1'' None = representing"
proof -
  have m: "min (2, 0) (1, 0 :: nat) = (1 :: nat, 0 :: nat)"
    by (simp add: min_def less_eq_prod_def)
  note b = minimum_recomputed[of representing ping_constituent "''1''" behind, THEN conjunct1,
      rule_format, OF behind_recomputed(1)]
  note s = minimum_recomputed[of representing ping_constituent "''1''" stale, THEN conjunct1,
      rule_format, OF stale_recomputed(1)]
  from b behind_recomputed(2) have b1:
    "reduced (minimum (recompute representing ping_constituent ''1'' (Some behind))) = (1, 0)"
    by (simp add: behind_recomputed(3) representing_fields m)
  from b b1 have b2:
    "propagated (minimum (recompute representing ping_constituent ''1'' (Some behind))) = (1, 0)"
    by (simp add: representing_fields)
  from s stale_recomputed(2) have s1:
    "reduced (minimum (recompute representing ping_constituent ''1'' (Some stale))) = (0, 0)"
    by blast
  from behind_recomputed(1) stale_recomputed(1) b1 b2 s1
    minimum_recomputed[of representing ping_constituent "''1''" stale]
  show ?thesis by simp
qed

text \<open>
  C8. The claim: a request whose sync carries another republic is rejected and none of
  its commits is applied. \<open>request\<close> never reads the republic of the sync (its first
  lines are the comment \<open>TODO Reject if it is the wrong republic\<close>): citizen 1 of republic
  7 answers a synchronize request of republic 8 with \<open>respond\<close> and appends the
  government it carries.
\<close>

theorem foreign_republic_accepted:
  "s_republic (rq_sync foreign_request) \<noteq> republic newcomer \<and>
   request_outcome (request idle newcomer 4 foreign_request) =
     Some (Respond, log newcomer @ [arrival])"
  by (simp add: request_outcome_def request_def answer_def u_sync_def foreign_request_def
      newcomer_def u_synchronize_def announces_def arrival_def second_government_def
      ping_constituent_def model_defs less_eq_prod_def less_prod_def shift_trailer.simps)

text \<open>
  C3. The claim: a rejection that reaches the writer collapses the citizen. With a
  promise, \<open>Writer.response\<close> calls \<open>this._paxos.collapse\<close>, a method the citizen does
  not have (its method is \<open>_collapse\<close>), so the call raises; and \<open>Paxos.response\<close> hands
  the writer no promise at all: when the only recipient of the dictator's write is
  unreachable, the writer goes on to send the commit and the citizen is not collapsed.
\<close>

theorem rejection_does_not_collapse:
  "Writer_response proposing 5 write_second [] (Some (0, 0)) =
     Inl (TypeError ''this._paxos.collapse is not a function'') \<and>
   collapsed_after (response idle proposing 5 write_second []) = Some False \<and>
   sent_after (response idle proposing 5 write_second []) = [[WWrite], [WCommit]]"
  by (simp add: Writer_response_def collapsed_after_def sent_after_def response_def
      recipient_def received_def unreachable_response_def u_synchronize_def recompute_def
      Writer_response_message_def writer_message_def write_second_def writer_version_def
      u_send_def u_sync_def proposing_def dictator_def collapsed_def government_proposal_def
      second_government_def model_defs)

theorem rejection_does_not_collapse_witness:
  "Writer_response proposing 5 write_second [] (Some (0, 0)) \<noteq>
     Inr (u_collapse idle proposing 5) \<and>
   collapsed_after (response idle proposing 5 write_second []) \<noteq> Some True"
  using rejection_does_not_collapse by simp

text \<open>
  C6. The claim: a leader's enqueue pushes a proposal under the next minor promise and
  returns that promise. \<open>enqueue\<close> increments \<open>_promised\<close> and \<open>Writer.push\<close> increments it
  again, taking the quorum from a \<open>majority\<close> property the citizen does not have: with an
  idle writer the nudge raises on the undefined quorum, and with a write in flight the
  promise returned is \<open>2/1\<close> while the proposal queued carries \<open>2/2\<close>.
\<close>

theorem enqueue_promise_diverges:
  "enqueue dictator 4 7 ''m'' = Inl (TypeError ''message.to is undefined'') \<and>
   enqueue_outcome (enqueue proposing 5 7 ''m'') = Some (True, Some (2, 1), [(2, 2)])"
  by (simp add: enqueue_def u_enqueuable_def enqueue_outcome_def Writer_push_def Writer_nudge_def
      u_send_def writer_message_def proposing_def dictator_def collapsed_def
      government_proposal_def second_government_def model_defs)




text \<open>
  C2. The claim: the trailer is never shifted past an entry whose promise is not less
  than the citizen's propagated minimum, and the propagated minimum never decreases,
  whatever requests and responses the citizen handles. The comment above \<open>request\<close>
  says the same (\<open>minimum only ever goes up\<close>), and \<open>request\<close> only ever raises
  \<open>propagated\<close>; but \<open>response\<close> replaces the leader's \<open>propagated\<close> with the reduced
  promise it recomputes: once the only constituent has reported \<open>2/0\<close> the leader's
  \<open>propagated\<close> is \<open>2/0\<close>, and a delayed report of \<open>1/0\<close> brings it down to \<open>1/0\<close>.
\<close>

theorem propagated_lowered:
  "response idle representing 5 ping_constituent [(''1'', reply caught_up)] = Inr informed \<and>
   propagated (minimum informed) = (2, 0) \<and>
   propagated_after (response idle informed 6 ping_constituent [(''1'', reply behind)]) =
     Some (1, 0)"
  using informed_reached informed_lowered by simp

theorem propagated_lowered_witness:
  "propagated_after (response idle informed 6 ping_constituent [(''1'', reply behind)]) \<noteq>
     Some (propagated (minimum informed))"
  using propagated_lowered by simp

end
